theory Spec2Isabelle
  imports Main "HOL-Library.Word" "HOL-Library.Monad_Syntax"
begin

unbundle bit_operations_syntax

section \<open>The Mode S frame decoder of lib/tracker/mode\_s/decode.go\<close>

text \<open>
  The development embeds the frame decoder of \<^verbatim>\<open>lib/tracker/mode_s/decode.go\<close>:
  the AVR text parser (\<^verbatim>\<open>parseIntoRaw\<close>, \<^verbatim>\<open>parseRawToMessage\<close>), the downlink-format
  dispatcher (\<^verbatim>\<open>parse\<close>), the field decoders and \<^verbatim>\<open>Decode\<close>.

  Go's \<^verbatim>\<open>byte\<close>, \<^verbatim>\<open>uint32\<close>, \<^verbatim>\<open>int32\<close> and \<^verbatim>\<open>uint64\<close> are machine words; a Go
  \<^verbatim>\<open>string\<close> is a list of bytes (\<^typ>\<open>string\<close>); a slice that may be \<^verbatim>\<open>nil\<close> is an
  optional list. An index that is out of range makes the Go runtime panic: the model
  returns \<open>None\<close> (field decoders) or \<open>Panics\<close> (dispatcher) there.
\<close>

type_synonym u8 = "8 word"
type_synonym u32 = "32 word"
type_synonym i32 = "32 word"
type_synonym u64 = "64 word"

subsection \<open>Errors and outcomes\<close>

text \<open>
  One constructor for each error value the source builds. \<open>ErrSyntax\<close> and \<open>ErrRange\<close>
  are the two errors of \<^verbatim>\<open>strconv.ParseUint\<close>; \<open>ErrExternal\<close> stands for an error
  value built by a function of the package that is not part of decode.go.
\<close>

datatype error =
    ErrNoOp
  | ErrEmptyString
  | ErrTooShort
  | ErrBeastTimeStamp error
  | ErrNoRaw
  | ErrOddLength nat
  | ErrIncorrectLength nat
  | ErrNoMessageBytes
  | ErrSyntax
  | ErrRange
  | ErrLengthMismatch nat nat
  | ErrExternal string

text \<open>A call either returns (an optional error, and the state it leaves) or panics.\<close>

datatype ('e, 'f) outcome = Returns "'e option" 'f | Panics

subsection \<open>The frame\<close>

text \<open>
  The fields of \<^verbatim>\<open>Frame\<close> that decode.go reads or writes. The struct is declared in
  another file of the package; its remaining fields (the ADS-B and Comm-B results, the
  CRC values, the time stamp, the lock) live in the record's extension \<open>more\<close>, which
  only the functions outside decode.go touch.
\<close>

record Frame =
  full :: string
  raw :: string
  message :: "u8 list option"
  fromBytes :: bool
  hasDecoded :: bool
  mode :: string
  beastTimeStamp :: string
  beastTicks :: u64
  beastTicksNs :: u64
  downLinkFormat :: u8
  icao :: u32
  ca :: u8
  cc :: u8
  fs :: u8
  vs :: u8
  ri :: u8
  sl :: u8
  dr :: u8
  um :: u8
  validVerticalStatus :: bool
  onGround :: bool
  alert :: bool
  special :: string
  identity :: u32
  ac :: u32
  acM :: bool
  acQ :: bool
  unit :: int
  altitude :: i32
  validAltitude :: bool

text \<open>\<^verbatim>\<open>len(f.message)\<close> and \<^verbatim>\<open>f.message[i]\<close>: a nil slice has length 0.\<close>

definition msgBytes :: "'a Frame_scheme \<Rightarrow> u8 list" where
  "msgBytes f = (case message f of None \<Rightarrow> [] | Some m \<Rightarrow> m)"

definition byteAt :: "'a Frame_scheme \<Rightarrow> nat \<Rightarrow> u8 option" where
  "byteAt f i = (if i < length (msgBytes f) then Some (msgBytes f ! i) else None)"

text \<open>
  The parts of the package that decode.go calls and that are declared elsewhere, taken
  as parameters: the theorems hold for every choice of them.
  \<^item> \<open>isNoOp\<close>, \<open>checkCrc\<close>, \<open>decodeAdsb\<close>, \<open>decodeCommB\<close>: methods of the frame;
  \<^item> \<open>decodeID13Field\<close>, \<open>modeAToModeC\<close>: the Gillham altitude functions;
  \<^item> \<open>flightStatusTable\<close>: the table of flight status texts;
  \<^item> \<open>modesUnitFeet\<close>, \<open>modesUnitMetres\<close>: the unit constants.
\<close>

record 'a helpers =
  isNoOp :: "'a Frame_scheme \<Rightarrow> bool"
  checkCrc :: "'a Frame_scheme \<Rightarrow> error option \<times> 'a Frame_scheme"
  decodeAdsb :: "'a Frame_scheme \<Rightarrow> 'a Frame_scheme"
  decodeCommB :: "'a Frame_scheme \<Rightarrow> error option \<times> 'a Frame_scheme"
  decodeID13Field :: "i32 \<Rightarrow> i32"
  modeAToModeC :: "i32 \<Rightarrow> i32"
  flightStatusTable :: "u8 \<Rightarrow> string"
  modesUnitFeet :: int
  modesUnitMetres :: int

subsection \<open>Downlink format and message length\<close>

definition decodeDownLinkFormat :: "'a Frame_scheme \<Rightarrow> 'a Frame_scheme option" where
  "decodeDownLinkFormat f =
     (case byteAt f 0 of
        None \<Rightarrow> None
      | Some m0 \<Rightarrow>
          if m0 AND 0xc0 = 0xc0 then Some (f\<lparr>downLinkFormat := 24\<rparr>)
          else Some (f\<lparr>downLinkFormat := drop_bit 3 m0\<rparr>))"

definition modesLongMsgBytes :: nat where "modesLongMsgBytes = 14"
definition modesShortMsgBytes :: nat where "modesShortMsgBytes = 7"

definition getMessageLengthBytes :: "'a Frame_scheme \<Rightarrow> nat" where
  "getMessageLengthBytes f =
     (if downLinkFormat f AND 0x10 \<noteq> 0 then modesLongMsgBytes else modesShortMsgBytes)"

subsection \<open>The CRC engine\<close>

text \<open>
  Modelled from the spec: \<^verbatim>\<open>decodeModeSChecksumAddr\<close> and the CRC routine it uses
  are declared in another file of the package. Section 4.1 of the specification gives
  the Mode S polynomial \<open>0xFFF409\<close>, the syndrome computed over the leading \<open>L - 24\<close>
  bits with the bytes fed from the most significant to the least, and
  \<^verbatim>\<open>checksum_addr(msg)\<close> as that syndrome XORed with the trailing 24 bits.
\<close>

definition modesPolynomial :: u32 where
  "modesPolynomial = 0xFFF409"

primrec crcShift :: "nat \<Rightarrow> u32 \<Rightarrow> u32" where
  "crcShift 0 r = r"
| "crcShift (Suc k) r =
     crcShift k
       (if r AND 0x800000 \<noteq> 0 then (push_bit 1 r XOR modesPolynomial) AND 0xFFFFFF
        else push_bit 1 r AND 0xFFFFFF)"

primrec crcSyndrome :: "u32 \<Rightarrow> u8 list \<Rightarrow> u32" where
  "crcSyndrome r [] = r"
| "crcSyndrome r (b # bs) = crcSyndrome (crcShift 8 (r XOR push_bit 16 (ucast b))) bs"

definition u24be :: "u8 list \<Rightarrow> u32" where
  "u24be bs = foldl (\<lambda>a b. push_bit 8 a OR ucast b) 0 bs"

definition decodeModeSChecksumAddr :: "'a Frame_scheme \<Rightarrow> u32" where
  "decodeModeSChecksumAddr f =
     (let m = msgBytes f; n = length m - 3
      in crcSyndrome 0 (take n m) XOR u24be (drop n m))"

subsection \<open>Field decoders\<close>

definition decodeCapability :: "'a Frame_scheme \<Rightarrow> 'a Frame_scheme option" where
  "decodeCapability f =
     (case byteAt f 0 of
        None \<Rightarrow> None
      | Some m0 \<Rightarrow>
          let f1 = f\<lparr>ca := m0 AND 7\<rparr>
          in if ca f1 = 4 then Some (f1\<lparr>validVerticalStatus := True, onGround := True\<rparr>)
             else if ca f1 = 5 then Some (f1\<lparr>validVerticalStatus := True, onGround := False\<rparr>)
             else Some f1)"

definition decodeCrossLinkCapability :: "'a Frame_scheme \<Rightarrow> 'a Frame_scheme option" where
  "decodeCrossLinkCapability f =
     (case byteAt f 0 of
        None \<Rightarrow> None
      | Some m0 \<Rightarrow> Some (f\<lparr>cc := drop_bit 1 (m0 AND 0x2)\<rparr>))"

text \<open>\<^verbatim>\<open>fmt.Sprintf("%d", b)\<close> for a byte.\<close>

definition digitChar :: "nat \<Rightarrow> char" where
  "digitChar d = char_of (48 + d)"

definition sprintfByte :: "u8 \<Rightarrow> string" where
  "sprintfByte b =
     (let n = unat b
      in if n < 10 then [digitChar n]
         else if n < 100 then [digitChar (n div 10), digitChar (n mod 10)]
         else [digitChar (n div 100), digitChar (n div 10 mod 10), digitChar (n mod 10)])"

definition decodeFlightStatus :: "'a helpers \<Rightarrow> 'a Frame_scheme \<Rightarrow> 'a Frame_scheme option" where
  "decodeFlightStatus H f =
     (case byteAt f 0 of
        None \<Rightarrow> None
      | Some m0 \<Rightarrow>
          let f1 = f\<lparr>fs := m0 AND 0x7\<rparr>;
              f2 = (if fs f1 = 0 \<or> fs f1 = 2
                    then f1\<lparr>validVerticalStatus := True, onGround := False\<rparr> else f1);
              f3 = (if fs f2 = 1 \<or> fs f2 = 3
                    then f2\<lparr>validVerticalStatus := True, onGround := True\<rparr> else f2);
              f4 = (if fs f3 = 4 \<or> fs f3 = 5
                    then f3\<lparr>validVerticalStatus := False, onGround := False,
                            special := special f3 @
                              (if fs f3 \<le> 7 then flightStatusTable H (fs f3)
                               else ''Unknown Flight Status: '' @ sprintfByte (fs f3))\<rparr>
                    else f3);
              f5 = (if fs f4 = 2 \<or> fs f4 = 3 \<or> fs f4 = 4 then f4\<lparr>alert := True\<rparr> else f4)
          in Some f5)"

definition decodeVerticalStatus :: "'a Frame_scheme \<Rightarrow> 'a Frame_scheme option" where
  "decodeVerticalStatus f =
     (case byteAt f 0 of
        None \<Rightarrow> None
      | Some m0 \<Rightarrow>
          let f1 = f\<lparr>vs := drop_bit 2 (m0 AND 4)\<rparr>
          in Some (f1\<lparr>onGround := (vs f1 \<noteq> 0), validVerticalStatus := True\<rparr>))"

definition decodeReplyInformation :: "'a Frame_scheme \<Rightarrow> 'a Frame_scheme option" where
  "decodeReplyInformation f =
     (case byteAt f 1 of
        None \<Rightarrow> None
      | Some m1 \<Rightarrow>
          (case byteAt f 2 of
             None \<Rightarrow> None
           | Some m2 \<Rightarrow>
               Some (f\<lparr>ri := push_bit 1 (m1 AND 7) OR drop_bit 7 (m2 AND 0x80)\<rparr>)))"

definition decodeSensitivityLevel :: "'a Frame_scheme \<Rightarrow> 'a Frame_scheme option" where
  "decodeSensitivityLevel f =
     (case byteAt f 1 of
        None \<Rightarrow> None
      | Some m1 \<Rightarrow> Some (f\<lparr>sl := drop_bit 5 (m1 AND 0xe0)\<rparr>))"

definition decodeDownLinkRequest :: "'a Frame_scheme \<Rightarrow> 'a Frame_scheme option" where
  "decodeDownLinkRequest f =
     (case byteAt f 1 of
        None \<Rightarrow> None
      | Some m1 \<Rightarrow> Some (f\<lparr>dr := drop_bit 3 (m1 AND 0xf8)\<rparr>))"

definition decodeUtilityMessage :: "'a Frame_scheme \<Rightarrow> 'a Frame_scheme option" where
  "decodeUtilityMessage f =
     (case byteAt f 1 of
        None \<Rightarrow> None
      | Some m1 \<Rightarrow>
          (case byteAt f 2 of
             None \<Rightarrow> None
           | Some m2 \<Rightarrow>
               Some (f\<lparr>um := push_bit 3 (m1 AND 0x7) OR drop_bit 5 (m2 AND 0xe0)\<rparr>)))"

text \<open>The three groups of the \<^verbatim>\<open>switch\<close> of \<^verbatim>\<open>decodeICAO\<close>.\<close>

definition icaoFromChecksum :: "u8 list" where
  "icaoFromChecksum = [0, 4, 5, 16, 20, 21]"

definition icaoZero :: "u8 list" where
  "icaoZero = [1, 2, 3, 6, 7, 8, 9, 10, 12, 13, 14, 15, 19, 22, 23, 24, 25, 26, 27, 28,
               29, 30, 31]"

definition icaoFromBytes :: "u8 list" where
  "icaoFromBytes = [11, 17, 18]"

definition decodeICAO :: "'a Frame_scheme \<Rightarrow> 'a Frame_scheme option" where
  "decodeICAO f =
     (if downLinkFormat f \<in> set icaoFromChecksum
      then Some (f\<lparr>icao := decodeModeSChecksumAddr f\<rparr>)
      else if downLinkFormat f \<in> set icaoZero
      then Some (f\<lparr>icao := 0\<rparr>)
      else if downLinkFormat f \<in> set icaoFromBytes
      then (case byteAt f 1 of
              None \<Rightarrow> None
            | Some a \<Rightarrow>
                (case byteAt f 2 of
                   None \<Rightarrow> None
                 | Some b \<Rightarrow>
                     (case byteAt f 3 of
                        None \<Rightarrow> None
                      | Some c \<Rightarrow>
                          Some (f\<lparr>icao := push_bit 16 (ucast a) OR push_bit 8 (ucast b)
                                          OR ucast c\<rparr>))))
      else Some f)"

definition decodeSquawkIdentity :: "nat \<Rightarrow> nat \<Rightarrow> 'a Frame_scheme \<Rightarrow> 'a Frame_scheme option" where
  "decodeSquawkIdentity byte1 byte2 f =
     (case byteAt f byte1 of
        None \<Rightarrow> None
      | Some x \<Rightarrow>
          (case byteAt f byte2 of
             None \<Rightarrow> None
           | Some y \<Rightarrow>
               let msg2 = (ucast x :: u32);
                   msg3 = (ucast y :: u32);
                   a = drop_bit 5 (msg3 AND 0x80) OR drop_bit 0 (msg2 AND 0x02)
                         OR drop_bit 3 (msg2 AND 0x08);
                   b = push_bit 1 (msg3 AND 0x02) OR drop_bit 2 (msg3 AND 0x08)
                         OR drop_bit 5 (msg3 AND 0x20);
                   c = push_bit 2 (msg2 AND 0x01) OR drop_bit 1 (msg2 AND 0x04)
                         OR drop_bit 4 (msg2 AND 0x10);
                   d = push_bit 2 (msg3 AND 0x01) OR drop_bit 1 (msg3 AND 0x04)
                         OR drop_bit 4 (msg3 AND 0x10)
               in Some (f\<lparr>identity := a * 1000 + b * 100 + c * 10 + d\<rparr>)))"

text \<open>The 11-bit integer \<open>n\<close> of the 25 ft branch.\<close>

definition ac13RemoveQM :: "u32 \<Rightarrow> i32" where
  "ac13RemoveQM x = drop_bit 2 (x AND 0x1F80) OR drop_bit 1 (x AND 0x0020) OR (x AND 0x000F)"

definition decode13bitAltitudeCode ::
  "'a helpers \<Rightarrow> 'a Frame_scheme \<Rightarrow> (error option \<times> 'a Frame_scheme) option" where
  "decode13bitAltitudeCode H f =
     (case byteAt f 2 of
        None \<Rightarrow> None
      | Some m2 \<Rightarrow>
          (case byteAt f 3 of
             None \<Rightarrow> None
           | Some m3 \<Rightarrow>
               let f1 = f\<lparr>ac := push_bit 8 (ucast (m2 AND 0x1F)) OR ucast m3\<rparr>;
                   f2 = f1\<lparr>acM := (ac f1 AND 0x40 = 0x40)\<rparr>;
                   f3 = f2\<lparr>acQ := (ac f2 AND 0x10 = 0x10)\<rparr>
               in if \<not> acM f3 \<and> acQ f3
                  then Some (None, f3\<lparr>unit := modesUnitFeet H,
                                      altitude := ac13RemoveQM (ac f3) * 25 - 1000,
                                      validAltitude := True\<rparr>)
                  else if \<not> acM f3 \<and> \<not> acQ f3
                  then (let g1 = f3\<lparr>unit := modesUnitFeet H\<rparr>;
                            g2 = g1\<lparr>altitude := modeAToModeC H (decodeID13Field H (ac g1))\<rparr>;
                            g3 = g2\<lparr>validAltitude := (- 12 \<le> sint (altitude g2))\<rparr>;
                            g4 = (if \<not> validAltitude g3 then g3\<lparr>altitude := 0\<rparr> else g3)
                        in Some (None, g4\<lparr>altitude := altitude g4 * 100\<rparr>))
                  else if acM f3
                  then Some (None, f3\<lparr>unit := modesUnitMetres H, validAltitude := False\<rparr>)
                  else Some (None, f3)))"

subsection \<open>The dispatcher\<close>

definition parse :: "'a helpers \<Rightarrow> 'a Frame_scheme \<Rightarrow> (error, 'a Frame_scheme) outcome" where
  "parse H f =
     (case decodeDownLinkFormat f of
        None \<Rightarrow> Panics
      | Some f0 \<Rightarrow>
          if getMessageLengthBytes f0 \<noteq> length (msgBytes f0)
          then Returns (Some (ErrLengthMismatch (getMessageLengthBytes f0) (length (msgBytes f0)))) f0
          else
            (case checkCrc H f0 of
               (Some e, f1) \<Rightarrow> Returns (Some e) f1
             | (None, f1) \<Rightarrow>
                 if downLinkFormat f1 = 0
                 then (case decodeICAO f1 \<bind> decodeVerticalStatus \<bind> decodeCrossLinkCapability
                              \<bind> decodeSensitivityLevel \<bind> decodeReplyInformation
                              \<bind> decode13bitAltitudeCode H of
                         None \<Rightarrow> Panics
                       | Some (err, g) \<Rightarrow> Returns err g)
                 else if downLinkFormat f1 = 4
                 then (case decodeICAO f1 \<bind> decodeFlightStatus H \<bind> decodeDownLinkRequest
                              \<bind> decodeUtilityMessage \<bind> decode13bitAltitudeCode H of
                         None \<Rightarrow> Panics
                       | Some (err, g) \<Rightarrow> Returns err g)
                 else if downLinkFormat f1 = 5
                 then (case decodeICAO f1 \<bind> decodeFlightStatus H \<bind> decodeDownLinkRequest
                              \<bind> decodeUtilityMessage \<bind> decodeSquawkIdentity 2 3 of
                         None \<Rightarrow> Panics
                       | Some g \<Rightarrow> Returns None g)
                 else if downLinkFormat f1 = 11
                 then (case decodeICAO f1 \<bind> decodeCapability of
                         None \<Rightarrow> Panics
                       | Some g \<Rightarrow> Returns None g)
                 else if downLinkFormat f1 = 16
                 then (case decodeICAO f1 \<bind> decodeVerticalStatus
                              \<bind> decode13bitAltitudeCode H of
                         None \<Rightarrow> Panics
                       | Some (err, g) \<Rightarrow>
                           (case decodeReplyInformation g \<bind> decodeSensitivityLevel of
                              None \<Rightarrow> Panics
                            | Some g' \<Rightarrow> Returns err g'))
                 else if downLinkFormat f1 = 17
                 then (case decodeICAO f1 \<bind> decodeCapability of
                         None \<Rightarrow> Panics
                       | Some g \<Rightarrow> Returns None (decodeAdsb H g))
                 else if downLinkFormat f1 = 18
                 then (case decodeCapability f1 of
                         None \<Rightarrow> Panics
                       | Some g \<Rightarrow>
                           if ca g = 0
                           then (case decodeICAO g of
                                   None \<Rightarrow> Panics
                                 | Some g' \<Rightarrow> Returns None (decodeAdsb H g'))
                           else Returns None g)
                 else if downLinkFormat f1 = 20
                 then (case decodeICAO f1 \<bind> decodeFlightStatus H
                              \<bind> decode13bitAltitudeCode H of
                         None \<Rightarrow> Panics
                       | Some (_, g) \<Rightarrow>
                           (case decodeCommB H g of (err, g') \<Rightarrow> Returns err g'))
                 else if downLinkFormat f1 = 21
                 then (case decodeICAO f1 \<bind> decodeFlightStatus H
                              \<bind> decodeSquawkIdentity 2 3 of
                         None \<Rightarrow> Panics
                       | Some g \<Rightarrow>
                           (case decodeCommB H g of (err, g') \<Rightarrow> Returns err g'))
                 else Returns None f1))"

subsection \<open>The library functions the text parser calls\<close>

text \<open>
  \<^verbatim>\<open>strings.TrimFunc(s, func(r rune) bool { return unicode.IsSpace(r) || r == ';' })\<close>.
  Go decodes the string as UTF-8, from the left and then from the right, and removes
  the runes the function accepts. A rune is accepted exactly when its encoding is one of
  \<open>trimmedRunes\<close>: the white space of Unicode (U+0009 to U+000D, U+0020, U+0085,
  U+00A0, U+1680, U+2000 to U+200A, U+2028, U+2029, U+202F, U+205F, U+3000) and the
  semicolon. A byte that starts no valid encoding is the rune U+FFFD, which stays.
\<close>

definition trimmedRunes :: "string list" where
  "trimmedRunes =
     [[CHR 0x09], [CHR 0x0A], [CHR 0x0B], [CHR 0x0C], [CHR 0x0D], [CHR 0x20], [CHR 0x3B],
      [CHR 0xC2, CHR 0x85], [CHR 0xC2, CHR 0xA0], [CHR 0xE1, CHR 0x9A, CHR 0x80],
      [CHR 0xE2, CHR 0x80, CHR 0x80], [CHR 0xE2, CHR 0x80, CHR 0x81],
      [CHR 0xE2, CHR 0x80, CHR 0x82], [CHR 0xE2, CHR 0x80, CHR 0x83],
      [CHR 0xE2, CHR 0x80, CHR 0x84], [CHR 0xE2, CHR 0x80, CHR 0x85],
      [CHR 0xE2, CHR 0x80, CHR 0x86], [CHR 0xE2, CHR 0x80, CHR 0x87],
      [CHR 0xE2, CHR 0x80, CHR 0x88], [CHR 0xE2, CHR 0x80, CHR 0x89],
      [CHR 0xE2, CHR 0x80, CHR 0x8A], [CHR 0xE2, CHR 0x80, CHR 0xA8],
      [CHR 0xE2, CHR 0x80, CHR 0xA9], [CHR 0xE2, CHR 0x80, CHR 0xAF],
      [CHR 0xE2, CHR 0x81, CHR 0x9F], [CHR 0xE3, CHR 0x80, CHR 0x80]]"

text \<open>The length of the trimmed rune the text starts with, 0 when there is none.\<close>

definition leadingTrimmed :: "string list \<Rightarrow> string \<Rightarrow> nat" where
  "leadingTrimmed rs bs =
     (case filter (\<lambda>r. take (length r) bs = r) rs of [] \<Rightarrow> 0 | r # _ \<Rightarrow> length r)"

text \<open>The first argument bounds the number of runes removed; the length of the text
  is enough.\<close>

fun trimLeftBytes :: "nat \<Rightarrow> string list \<Rightarrow> string \<Rightarrow> string" where
  "trimLeftBytes 0 rs bs = bs"
| "trimLeftBytes (Suc k) rs bs =
     (if leadingTrimmed rs bs = 0 then bs
      else trimLeftBytes k rs (drop (leadingTrimmed rs bs) bs))"

definition trimFunc :: "string \<Rightarrow> string" where
  "trimFunc s =
     (let l = trimLeftBytes (length s) trimmedRunes s
      in rev (trimLeftBytes (length l) (map rev trimmedRunes) (rev l)))"

text \<open>
  \<^verbatim>\<open>strconv.ParseUint(s, base, bitSize)\<close> for an explicit base between 2 and 36 (the
  source passes 16) and a bit size between 1 and 64: the value and the error returned.
  \<open>lower c\<close> is \<^verbatim>\<open>c | ('x' - 'X')\<close>; \<open>cutoff\<close> is the smallest number whose product
  with the base exceeds \<^verbatim>\<open>maxUint64\<close>; the sum \<open>n1\<close> is out of range when it wraps
  around 64 bits or exceeds \<open>maxVal\<close>.
\<close>

definition lower :: "nat \<Rightarrow> nat" where
  "lower c = c OR 32"

definition digitOf :: "char \<Rightarrow> nat option" where
  "digitOf ch =
     (let c = of_char ch
      in if 48 \<le> c \<and> c \<le> 57 then Some (c - 48)
         else if 97 \<le> lower c \<and> lower c \<le> 122 then Some (lower c - 97 + 10)
         else None)"

fun parseUintLoop :: "nat \<Rightarrow> nat \<Rightarrow> nat \<Rightarrow> string \<Rightarrow> nat \<times> error option" where
  "parseUintLoop base maxVal n [] = (n, None)"
| "parseUintLoop base maxVal n (ch # cs) =
     (case digitOf ch of
        None \<Rightarrow> (0, Some ErrSyntax)
      | Some d \<Rightarrow>
          if d \<ge> base then (0, Some ErrSyntax)
          else if n \<ge> (2 ^ 64 - 1) div base + 1 then (maxVal, Some ErrRange)
          else (let n1 = n * base + d
                in if n1 \<ge> 2 ^ 64 \<or> n1 > maxVal then (maxVal, Some ErrRange)
                   else parseUintLoop base maxVal n1 cs))"

definition ParseUint :: "string \<Rightarrow> nat \<Rightarrow> nat \<Rightarrow> nat \<times> error option" where
  "ParseUint s base bitSize =
     (if s = [] then (0, Some ErrSyntax)
      else parseUintLoop base (2 ^ bitSize - 1) 0 s)"

subsection \<open>The AVR text parser\<close>

definition parseBeastTimeStamp :: "'a Frame_scheme \<Rightarrow> error option \<times> 'a Frame_scheme" where
  "parseBeastTimeStamp f =
     (if beastTimeStamp f = [] \<or> ''00000000000'' = beastTimeStamp f then (None, f)
      else (case ParseUint (beastTimeStamp f) 16 64 of
              (v, Some e) \<Rightarrow> (Some (ErrBeastTimeStamp e), f\<lparr>beastTicks := of_nat v\<rparr>)
            | (v, None) \<Rightarrow>
                (let f1 = f\<lparr>beastTicks := of_nat v\<rparr>
                 in (None, f1\<lparr>beastTicksNs := beastTicks f1 * 500\<rparr>))))"

text \<open>
  The loop of \<^verbatim>\<open>parseRawToMessage\<close>: it reads the raw text two characters at a time;
  \<open>index\<close> is the byte to write. It runs on a text of even length, so the last
  equation is the end of the loop.
\<close>

fun hexPairs :: "string \<Rightarrow> nat \<Rightarrow> u8 list \<Rightarrow> error option \<times> u8 list" where
  "hexPairs (x # y # rest) index m =
     (case ParseUint [x, y] 16 8 of
        (v, Some e) \<Rightarrow> (Some e, m)
      | (v, None) \<Rightarrow> hexPairs rest (Suc index) (m[index := of_nat v]))"
| "hexPairs rest index m = (None, m)"

definition parseRawToMessage :: "'a Frame_scheme \<Rightarrow> error option \<times> 'a Frame_scheme" where
  "parseRawToMessage f =
     (if message f \<noteq> None then (None, f)
      else (let frameLen = length (raw f)
            in if frameLen mod 2 \<noteq> 0 then (Some (ErrOddLength frameLen), f)
               else (let messageLen = frameLen div 2
                     in if \<not> (messageLen = modesShortMsgBytes \<or> messageLen = modesLongMsgBytes)
                        then (Some (ErrIncorrectLength messageLen), f)
                        else (case hexPairs (raw f) 0 (replicate messageLen 0) of
                                (Some e, m) \<Rightarrow> (Some e, f\<lparr>message := Some m\<rparr>)
                              | (None, m) \<Rightarrow>
                                  if length m = 0
                                  then (Some ErrNoMessageBytes, f\<lparr>message := Some m\<rparr>)
                                  else (None, f\<lparr>message := Some m\<rparr>)))))"

definition parseIntoRaw :: "'a Frame_scheme \<Rightarrow> error option \<times> 'a Frame_scheme" where
  "parseIntoRaw f =
     (if length (raw f) > 0 then (None, f)
      else (let encodedFrame = trimFunc (full f)
            in if encodedFrame = [] then (Some ErrEmptyString, f)
               else if length encodedFrame < 14 then (Some ErrTooShort, f)
               else (let f1 = (if encodedFrame ! 0 = CHR ''@'' then f\<lparr>mode := ''MLAT''\<rparr>
                               else f\<lparr>mode := ''NORMAL''\<rparr>)
                     in if mode f1 = ''MLAT''
                        then (case parseBeastTimeStamp
                                     (f1\<lparr>beastTimeStamp := take 11 (drop 1 encodedFrame)\<rparr>) of
                                (Some e, f2) \<Rightarrow> (Some e, f2)
                              | (None, f2) \<Rightarrow>
                                  (let f3 = f2\<lparr>raw := drop 13 encodedFrame\<rparr>
                                   in if length (raw f3) = 0 then (Some ErrNoRaw, f3)
                                      else parseRawToMessage f3))
                        else (let frameStart = (if take 1 encodedFrame = ''*'' then 1 else 0);
                                  f3 = f1\<lparr>raw := drop frameStart encodedFrame\<rparr>
                              in if length (raw f3) = 0 then (Some ErrNoRaw, f3)
                                 else parseRawToMessage f3))))"

subsection \<open>Decode\<close>

text \<open>
  The receiver is a pointer: \<open>None\<close> is the nil pointer. The lock serialises the calls
  on one frame; the model is of one call at a time.
\<close>

definition decodeBody :: "'a helpers \<Rightarrow> 'a Frame_scheme \<Rightarrow> (error, 'a Frame_scheme option) outcome" where
  "decodeBody H f =
     (case parse H f of
        Panics \<Rightarrow> Panics
      | Returns None g \<Rightarrow> Returns None (Some (g\<lparr>hasDecoded := True\<rparr>))
      | Returns (Some e) g \<Rightarrow> Returns (Some e) (Some g))"

definition Decode ::
  "'a helpers \<Rightarrow> 'a Frame_scheme option \<Rightarrow> (error, 'a Frame_scheme option) outcome" where
  "Decode H p =
     (case p of
        None \<Rightarrow> Returns None None
      | Some f \<Rightarrow>
          if hasDecoded f then Returns None (Some f)
          else if \<not> fromBytes f
          then (case parseIntoRaw f of
                  (Some e, f1) \<Rightarrow> Returns (Some e) (Some f1)
                | (None, f1) \<Rightarrow>
                    if isNoOp H f1 then Returns (Some ErrNoOp) (Some f1)
                    else decodeBody H f1)
          else decodeBody H f)"

text \<open>\<^verbatim>\<open>NewFrame\<close>: every field but \<open>full\<close> has Go's zero value (the time stamp and
  the lock are part of the extension \<open>z\<close>).\<close>

definition NewFrame :: "string \<Rightarrow> 'a \<Rightarrow> 'a Frame_scheme" where
  "NewFrame rawFrame z =
     \<lparr>full = rawFrame, raw = [], message = None, fromBytes = False, hasDecoded = False,
      mode = [], beastTimeStamp = [], beastTicks = 0, beastTicksNs = 0, downLinkFormat = 0,
      icao = 0, ca = 0, cc = 0, fs = 0, vs = 0, ri = 0, sl = 0, dr = 0, um = 0,
      validVerticalStatus = False, onGround = False, alert = False, special = [],
      identity = 0, ac = 0, acM = False, acQ = False, unit = 0, altitude = 0,
      validAltitude = False, \<dots> = z\<rparr>"

text \<open>\<^verbatim>\<open>NewFrameFromBytes\<close>.\<close>

definition NewFrameFromBytes :: "u64 \<Rightarrow> u8 list option \<Rightarrow> 'a \<Rightarrow> 'a Frame_scheme" where
  "NewFrameFromBytes ticks msg z =
     (NewFrame [] z)\<lparr>mode := ''MLAT'', beastTicks := ticks, message := msg, fromBytes := True\<rparr>"

subsection \<open>Example frames\<close>

text \<open>
  A concrete choice of the parameters, for evaluating the theorems on examples: no frame
  is a no-op, every CRC is accepted, the ADS-B and Comm-B decoders leave the frame as it
  is, and the Gillham functions are the identity.
\<close>

definition exampleHelpers :: "unit helpers" where
  "exampleHelpers =
     \<lparr>isNoOp = (\<lambda>f. False), checkCrc = (\<lambda>f. (None, f)), decodeAdsb = (\<lambda>f. f),
      decodeCommB = (\<lambda>f. (None, f)), decodeID13Field = (\<lambda>x. x), modeAToModeC = (\<lambda>x. x),
      flightStatusTable = (\<lambda>b. ''SPI''), modesUnitFeet = 0, modesUnitMetres = 1\<rparr>"

text \<open>The DF17 frame \<^verbatim>\<open>8D4840D6202CC371C32CE0576098\<close>, as bytes.\<close>

definition adsbBytes :: "u8 list" where
  "adsbBytes = [0x8D, 0x48, 0x40, 0xD6, 0x20, 0x2C, 0xC3, 0x71, 0xC3, 0x2C, 0xE0, 0x57, 0x60, 0x98]"

definition adsbFrame :: Frame where
  "adsbFrame = NewFrameFromBytes 0 (Some adsbBytes) ()"

text \<open>A DF4 reply with the altitude code \<open>0x1838\<close> (Q = 1), a DF4 reply with the
  altitude code \<open>0x0005\<close> (Q = 0), and a DF5 reply with the squawk 1200.\<close>

definition altitudeFrame :: Frame where
  "altitudeFrame = NewFrameFromBytes 0 (Some [0x20, 0x00, 0x18, 0x38, 0xCA, 0x3E, 0x51]) ()"

definition gillhamFrame :: Frame where
  "gillhamFrame = NewFrameFromBytes 0 (Some [0x20, 0x00, 0x00, 0x05, 0x00, 0x00, 0x00]) ()"

definition squawkFrame :: Frame where
  "squawkFrame = NewFrameFromBytes 0 (Some [0x28, 0x00, 0x08, 0x08, 0x00, 0x00, 0x00]) ()"

text \<open>A DF11 all-call reply of 7 bytes, a DF18 first byte on a 7-byte message, and two
  DF18 messages of 14 bytes with the control field 0 and 1.\<close>

definition acquisitionFrame :: Frame where
  "acquisitionFrame = NewFrameFromBytes 0 (Some [0x5D, 0x7C, 0x49, 0xF8, 0x28, 0xE9, 0x43]) ()"

definition truncatedFrame :: Frame where
  "truncatedFrame = NewFrameFromBytes 0 (Some [0x90, 0x7C, 0x49, 0xF8, 0x28, 0xE9, 0x43]) ()"

definition controlZeroFrame :: Frame where
  "controlZeroFrame =
     NewFrameFromBytes 0
       (Some [0x90, 0x48, 0x40, 0xD6, 0x20, 0x2C, 0xC3, 0x71, 0xC3, 0x2C, 0xE0, 0x57, 0x60, 0x98]) ()"

definition controlOneFrame :: Frame where
  "controlOneFrame =
     NewFrameFromBytes 0
       (Some [0x91, 0x48, 0x40, 0xD6, 0x20, 0x2C, 0xC3, 0x71, 0xC3, 0x2C, 0xE0, 0x57, 0x60, 0x98]) ()"

subsection \<open>The payload of a frame\<close>

text \<open>
  Two states of a frame have the same payload when they agree on the message bytes and
  on the downlink format. The functions of decode.go that run after the length check
  keep the payload; \<open>helpersKeepPayload\<close> says the same of the three methods that are
  declared elsewhere.
\<close>

definition samePayload :: "'a Frame_scheme \<Rightarrow> 'a Frame_scheme \<Rightarrow> bool" where
  "samePayload f g \<longleftrightarrow> message g = message f \<and> downLinkFormat g = downLinkFormat f"

definition keepsPayload :: "'a Frame_scheme \<Rightarrow> 'a Frame_scheme option \<Rightarrow> bool" where
  "keepsPayload f x \<longleftrightarrow> (case x of None \<Rightarrow> True | Some g \<Rightarrow> samePayload f g)"

definition keepsPayload2 :: "'a Frame_scheme \<Rightarrow> ('e \<times> 'a Frame_scheme) option \<Rightarrow> bool" where
  "keepsPayload2 f x \<longleftrightarrow> (case x of None \<Rightarrow> True | Some (e, g) \<Rightarrow> samePayload f g)"

definition helpersKeepPayload :: "'a helpers \<Rightarrow> bool" where
  "helpersKeepPayload H \<longleftrightarrow>
     (\<forall>a. samePayload a (snd (checkCrc H a)))
     \<and> (\<forall>a. samePayload a (decodeAdsb H a))
     \<and> (\<forall>a. samePayload a (snd (decodeCommB H a)))"

definition outcomeKeepsPayload ::
  "'a Frame_scheme \<Rightarrow> (error, 'a Frame_scheme) outcome \<Rightarrow> bool" where
  "outcomeKeepsPayload f r \<longleftrightarrow> (case r of Panics \<Rightarrow> True | Returns e g \<Rightarrow> samePayload f g)"

subsection \<open>The words of the specification\<close>

text \<open>
  Bit \<open>k\<close> of a message, counted from 1 with the most significant bit of the first
  byte first, as the comments of the source and the specification count them.
\<close>

definition messageBit :: "u8 list \<Rightarrow> nat \<Rightarrow> bool" where
  "messageBit m k = bit (m ! ((k - 1) div 8)) (7 - (k - 1) mod 8)"

text \<open>The octal digit with the bits of weight 4, 2 and 1.\<close>

definition octalDigit :: "bool \<Rightarrow> bool \<Rightarrow> bool \<Rightarrow> nat" where
  "octalDigit b4 b2 b1 = 4 * of_bool b4 + 2 * of_bool b2 + of_bool b1"

subsection \<open>Hexadecimal digits\<close>

text \<open>
  The characters that \<^verbatim>\<open>strconv.ParseUint\<close> accepts in base 16, and the value of each:
  \<open>0\<close> to \<open>9\<close>, \<open>A\<close> to \<open>F\<close> and \<open>a\<close> to \<open>f\<close>.
\<close>

definition isHexDigit :: "char \<Rightarrow> bool" where
  "isHexDigit ch \<longleftrightarrow>
     (let c = (of_char ch :: nat)
      in (48 \<le> c \<and> c \<le> 57) \<or> (65 \<le> c \<and> c \<le> 70) \<or> (97 \<le> c \<and> c \<le> 102))"

definition hexDigitValue :: "char \<Rightarrow> nat" where
  "hexDigitValue ch =
     (let c = (of_char ch :: nat)
      in if c \<le> 57 then c - 48 else if c \<le> 70 then c - 55 else c - 87)"

text \<open>The number that a string of hexadecimal digits writes, most significant digit
  first, and the bytes that it writes two digits at a time.\<close>

definition hexNumber :: "nat \<Rightarrow> string \<Rightarrow> nat" where
  "hexNumber n s = foldl (\<lambda>a ch. a * 16 + hexDigitValue ch) n s"

fun hexBytes :: "string \<Rightarrow> u8 list" where
  "hexBytes (x # y # rest) = of_nat (16 * hexDigitValue x + hexDigitValue y) # hexBytes rest"
| "hexBytes rest = []"

subsection \<open>Example text frames\<close>

text \<open>
  The seven bytes \<^verbatim>\<open>5D7C49F828E943\<close> after a time stamp of 12 digits, after a time stamp
  of 11 digits, and after 11 digits and a character that is not a hexadecimal digit.
\<close>

definition mlatFrame :: Frame where
  "mlatFrame = NewFrame ''@0000000F42405D7C49F828E943;'' ()"

definition shortStampFrame :: Frame where
  "shortStampFrame = NewFrame ''@000000000005D7C49F828E943;'' ()"

definition strayFrame :: Frame where
  "strayFrame = NewFrame ''@0000000F424X5D7C49F828E943;'' ()"

text \<open>A frame of 14 characters whose last two are not hexadecimal digits, and a frame
  of 13 hexadecimal digits.\<close>

definition badHexFrame :: Frame where
  "badHexFrame = NewFrame ''*A0001838CA3EZZ;'' ()"

definition oddFrame :: Frame where
  "oddFrame = NewFrame ''*5D7C49F828E94;'' ()"

section \<open>Properties\<close>

subsection \<open>Bytes and bits\<close>

lemma and_single_bit: "(w::'a::len word) AND 2 ^ k = (if bit w k then 2 ^ k else 0)"
  by (rule bit_word_eqI) (auto simp: bit_simps)

lemma top_two_bits: "(m0 :: u8) AND 0xc0 = 0xc0 \<longleftrightarrow> bit m0 7 \<and> bit m0 6"
proof -
  have "(0xc0::u8) = 2 ^ 7 OR 2 ^ 6" by simp
  then have "m0 AND 0xc0 = (m0 AND 2 ^ 7) OR (m0 AND 2 ^ 6)"
    by (simp only: bit.conj_disj_distrib)
  then show ?thesis
    by (simp only: and_single_bit) (simp split: if_splits)
qed

lemma shifted_df_24: "drop_bit 3 (m0::u8) = 24 \<Longrightarrow> bit m0 7 \<and> bit m0 6"
proof -
  assume a: "drop_bit 3 m0 = 24"
  have "bit (drop_bit 3 m0) 4" "bit (drop_bit 3 m0) 3" unfolding a by simp_all
  then show ?thesis by (simp add: bit_simps)
qed

lemma byteAt_adsbFrame:
  "byteAt adsbFrame 0 = Some 0x8D" "byteAt adsbFrame 1 = Some 0x48"
  "byteAt adsbFrame 2 = Some 0x40" "byteAt adsbFrame 3 = Some 0xD6"
  by (simp_all add: byteAt_def msgBytes_def adsbFrame_def adsbBytes_def
        NewFrameFromBytes_def NewFrame_def)

subsection \<open>The downlink format\<close>

text \<open>
  Claim C4. On a message with a first byte \<open>m0\<close>, \<^verbatim>\<open>decodeDownLinkFormat\<close> changes nothing
  but \<open>downLinkFormat\<close>, which it sets to 24 when \<open>m0 AND 0xC0 = 0xC0\<close> and to
  \<open>m0 >> 3\<close> otherwise; the test holds exactly when the top two bits of \<open>m0\<close> are both
  set, and the format decoded is 24 exactly in that case.
\<close>

theorem decodeDownLinkFormat_df24:
  assumes "byteAt f 0 = Some m0"
  shows "decodeDownLinkFormat f =
           Some (f\<lparr>downLinkFormat := (if m0 AND 0xc0 = 0xc0 then 24 else drop_bit 3 m0)\<rparr>)
         \<and> (m0 AND 0xc0 = 0xc0 \<longleftrightarrow> bit m0 7 \<and> bit m0 6)
         \<and> ((if m0 AND 0xc0 = 0xc0 then 24 else drop_bit 3 m0) = (24::u8)
              \<longleftrightarrow> m0 AND 0xc0 = 0xc0)"
proof (intro conjI)
  show "decodeDownLinkFormat f =
          Some (f\<lparr>downLinkFormat := (if m0 AND 0xc0 = 0xc0 then 24 else drop_bit 3 m0)\<rparr>)"
    using assms by (simp add: decodeDownLinkFormat_def)
  show "m0 AND 0xc0 = 0xc0 \<longleftrightarrow> bit m0 7 \<and> bit m0 6"
    by (rule top_two_bits)
  show "(if m0 AND 0xc0 = 0xc0 then 24 else drop_bit 3 m0) = (24::u8) \<longleftrightarrow> m0 AND 0xc0 = 0xc0"
    using shifted_df_24 [of m0] top_two_bits [of m0] by auto
qed

theorem decodeDownLinkFormat_df24_witness:
  "byteAt adsbFrame 0 = Some 0x8D
   \<and> decodeDownLinkFormat adsbFrame = Some (adsbFrame\<lparr>downLinkFormat := 17\<rparr>)"
  using decodeDownLinkFormat_df24 [of adsbFrame "0x8D"] by (simp add: byteAt_adsbFrame)

subsection \<open>Decode on a nil receiver\<close>

text \<open>
  Claim C10. \<^verbatim>\<open>Decode\<close> called on a nil \<^verbatim>\<open>*Frame\<close> returns a nil error: it neither
  panics nor fails, and there is no frame whose state could change.
\<close>

theorem Decode_nil_receiver: "Decode H None = Returns None None"
  by (simp add: Decode_def)

subsection \<open>The squawk identity\<close>

lemma div_digit: "r < k \<Longrightarrow> (q * k + r) div k = (q::nat)"
  by simp

lemma mod_digit: "r < k \<Longrightarrow> (q * k + r) mod k = (r::nat)"
  by simp

lemma digits_of_squawk:
  assumes "a \<le> 7" "b \<le> 7" "c \<le> 7" "d \<le> (7::nat)"
  shows "(a * 1000 + b * 100 + c * 10 + d) div 1000 = a
       \<and> (a * 1000 + b * 100 + c * 10 + d) div 100 mod 10 = b
       \<and> (a * 1000 + b * 100 + c * 10 + d) div 10 mod 10 = c
       \<and> (a * 1000 + b * 100 + c * 10 + d) mod 10 = d"
proof -
  let ?v = "a * 1000 + b * 100 + c * 10 + d"
  have e1: "?v = a * 1000 + (b * 100 + c * 10 + d)" by simp
  have e2: "?v = (a * 10 + b) * 100 + (c * 10 + d)" by simp
  have e3: "?v = (a * 100 + b * 10 + c) * 10 + d" by simp
  have r1: "b * 100 + c * 10 + d < 1000" and r2: "c * 10 + d < 100" and r3: "d < 10"
    and r4: "b < 10" and r5: "c < 10"
    using assms by linarith+
  have "?v div 1000 = a" by (subst e1) (rule div_digit [OF r1])
  moreover have "?v div 100 = a * 10 + b" by (subst e2) (rule div_digit [OF r2])
  then have "?v div 100 mod 10 = b" by (simp only: mod_digit [OF r4])
  moreover have "?v div 10 = (a * 10 + b) * 10 + c"
    by (subst e3) (simp only: div_digit [OF r3], simp)
  then have "?v div 10 mod 10 = c" by (simp only: mod_digit [OF r5])
  moreover have "?v mod 10 = d" by (subst e3) (rule mod_digit [OF r3])
  ultimately show ?thesis by blast
qed

lemma ucast_and_single_bit:
  "(ucast (x::u8) :: u32) AND 2 ^ k = (if bit x k then 2 ^ k else 0)"
  using bit_imp_le_length [of x k] by (auto simp add: and_single_bit bit_ucast_iff)

lemma squawk_a:
  "drop_bit 5 (ucast y AND 0x80) OR drop_bit 0 (ucast x AND 0x02) OR drop_bit 3 (ucast x AND 0x08)
     = (of_nat (octalDigit (bit y 7) (bit x 1) (bit x 3)) :: u32)" for x y :: u8
  using ucast_and_single_bit [of y 7] ucast_and_single_bit [of x 1] ucast_and_single_bit [of x 3]
  by (simp add: octalDigit_def)

lemma squawk_b:
  "push_bit 1 (ucast y AND 0x02) OR drop_bit 2 (ucast y AND 0x08) OR drop_bit 5 (ucast y AND 0x20)
     = (of_nat (octalDigit (bit y 1) (bit y 3) (bit y 5)) :: u32)" for y :: u8
  using ucast_and_single_bit [of y 1] ucast_and_single_bit [of y 3] ucast_and_single_bit [of y 5]
  by (simp add: octalDigit_def)

lemma squawk_c:
  "push_bit 2 (ucast x AND 0x01) OR drop_bit 1 (ucast x AND 0x04) OR drop_bit 4 (ucast x AND 0x10)
     = (of_nat (octalDigit (bit x 0) (bit x 2) (bit x 4)) :: u32)" for x :: u8
  using ucast_and_single_bit [of x 0] ucast_and_single_bit [of x 2] ucast_and_single_bit [of x 4]
  by (simp add: octalDigit_def)

lemma octalDigit_le: "octalDigit p q r \<le> 7"
  by (simp add: octalDigit_def)

lemma squawk_value:
  assumes "a \<le> 7" "b \<le> 7" "c \<le> 7" "d \<le> (7::nat)"
  shows "unat (of_nat (a * 1000 + b * 100 + c * 10 + d) :: u32) = a * 1000 + b * 100 + c * 10 + d"
proof -
  have "a * 1000 + b * 100 + c * 10 + d < 2 ^ 32"
    using assms by simp
  then show ?thesis
    by (simp only: unat_of_nat) simp
qed

lemma squawk_bits:
  "messageBit m 20 = bit (m ! 2) 4" "messageBit m 21 = bit (m ! 2) 3"
  "messageBit m 22 = bit (m ! 2) 2" "messageBit m 23 = bit (m ! 2) 1"
  "messageBit m 24 = bit (m ! 2) 0" "messageBit m 25 = bit (m ! 3) 7"
  "messageBit m 27 = bit (m ! 3) 5" "messageBit m 28 = bit (m ! 3) 4"
  "messageBit m 29 = bit (m ! 3) 3" "messageBit m 30 = bit (m ! 3) 2"
  "messageBit m 31 = bit (m ! 3) 1" "messageBit m 32 = bit (m ! 3) 0"
  by (simp_all add: messageBit_def)

lemma decodeSquawkIdentity_bytes:
  assumes "byteAt f 2 = Some x" and "byteAt f 3 = Some y"
  shows "decodeSquawkIdentity 2 3 f =
           Some (f\<lparr>identity := of_nat (octalDigit (bit y 7) (bit x 1) (bit x 3) * 1000
                                    + octalDigit (bit y 1) (bit y 3) (bit y 5) * 100
                                    + octalDigit (bit x 0) (bit x 2) (bit x 4) * 10
                                    + octalDigit (bit y 0) (bit y 2) (bit y 4))\<rparr>)"
  unfolding decodeSquawkIdentity_def assms option.case Let_def
    squawk_a squawk_b squawk_c squawk_c [of y]
  by simp

text \<open>
  Claim C8. On a message of at least four bytes, \<^verbatim>\<open>decodeSquawkIdentity(2, 3)\<close> reads
  the message bits 20 to 32 as C1 A1 C2 A2 C4 A4 ZERO B1 D1 B2 D2 B4 D4, builds the
  octal digits \<open>a\<close>, \<open>b\<close>, \<open>c\<close>, \<open>d\<close> from them and sets
  \<open>identity = a * 1000 + b * 100 + c * 10 + d\<close> (the sum does not wrap); every digit
  is at most 7, so the decimal digits of \<open>identity\<close> are \<open>a\<close>, \<open>b\<close>, \<open>c\<close>, \<open>d\<close>.
\<close>

theorem decodeSquawkIdentity_gillham:
  assumes "message f = Some m" and "3 < length m"
  shows "let a = octalDigit (messageBit m 25) (messageBit m 23) (messageBit m 21);
             b = octalDigit (messageBit m 31) (messageBit m 29) (messageBit m 27);
             c = octalDigit (messageBit m 24) (messageBit m 22) (messageBit m 20);
             d = octalDigit (messageBit m 32) (messageBit m 30) (messageBit m 28);
             v = a * 1000 + b * 100 + c * 10 + d
         in decodeSquawkIdentity 2 3 f = Some (f\<lparr>identity := of_nat v\<rparr>)
            \<and> unat (of_nat v :: u32) = v
            \<and> a \<le> 7 \<and> b \<le> 7 \<and> c \<le> 7 \<and> d \<le> 7
            \<and> v div 1000 = a \<and> v div 100 mod 10 = b \<and> v div 10 mod 10 = c \<and> v mod 10 = d"
proof -
  define a where "a = octalDigit (messageBit m 25) (messageBit m 23) (messageBit m 21)"
  define b where "b = octalDigit (messageBit m 31) (messageBit m 29) (messageBit m 27)"
  define c where "c = octalDigit (messageBit m 24) (messageBit m 22) (messageBit m 20)"
  define d where "d = octalDigit (messageBit m 32) (messageBit m 30) (messageBit m 28)"
  have le: "a \<le> 7" "b \<le> 7" "c \<le> 7" "d \<le> 7"
    by (simp_all add: a_def b_def c_def d_def octalDigit_le)
  have bytes: "byteAt f 2 = Some (m ! 2)" "byteAt f 3 = Some (m ! 3)"
    using assms by (simp_all add: byteAt_def msgBytes_def)
  have dec: "decodeSquawkIdentity 2 3 f
          = Some (f\<lparr>identity := of_nat (a * 1000 + b * 100 + c * 10 + d)\<rparr>)"
    unfolding a_def b_def c_def d_def squawk_bits
    by (rule decodeSquawkIdentity_bytes [OF bytes])
  show ?thesis
    unfolding Let_def a_def [symmetric] b_def [symmetric] c_def [symmetric] d_def [symmetric]
    using dec squawk_value [OF le] le digits_of_squawk [OF le] by blast
qed

theorem decodeSquawkIdentity_gillham_witness:
  "message squawkFrame = Some [0x28, 0x00, 0x08, 0x08, 0x00, 0x00, 0x00]
   \<and> 3 < length [0x28, 0x00, 0x08, 0x08, 0x00, 0x00, 0x00 :: u8]
   \<and> decodeSquawkIdentity 2 3 squawkFrame = Some (squawkFrame\<lparr>identity := 1200\<rparr>)"
proof -
  have m: "message squawkFrame = Some [0x28, 0x00, 0x08, 0x08, 0x00, 0x00, 0x00]"
    by (simp add: squawkFrame_def NewFrameFromBytes_def NewFrame_def)
  have l: "3 < length [0x28, 0x00, 0x08, 0x08, 0x00, 0x00, 0x00 :: u8]"
    by simp
  show ?thesis
    using decodeSquawkIdentity_gillham [OF m l] m
    by (simp add: Let_def messageBit_def octalDigit_def)
qed

subsection \<open>The 13-bit altitude code\<close>

lemma mask_test_bit:
  "(x::'a::len word) AND 2 ^ k = 2 ^ k \<longleftrightarrow> bit x k \<or> \<not> k < LENGTH('a)"
  by (auto simp add: and_single_bit)

lemma acM_bit: "((x::u32) AND 0x40 = 0x40) = bit x 6"
  using mask_test_bit [of x 6] by simp

lemma acQ_bit: "((x::u32) AND 0x10 = 0x10) = bit x 4"
  using mask_test_bit [of x 4] by simp

lemma bit_shifted_field:
  "bit (drop_bit j ((x::'a::len word) AND push_bit a (mask b))) i
     \<longleftrightarrow> bit x (j + i) \<and> a \<le> j + i \<and> j + i < a + b"
  using bit_imp_le_length [of x "j + i"] by (auto simp add: bit_simps)

lemma bit_shifted_single:
  "bit (drop_bit j ((x::'a::len word) AND 2 ^ k)) i \<longleftrightarrow> bit x k \<and> j + i = k"
  using bit_imp_le_length [of x k] by (auto simp add: bit_simps)

lemma bit_low_field:
  "bit ((x::'a::len word) AND mask b) i \<longleftrightarrow> i < b \<and> bit x i"
  using bit_imp_le_length [of x i] by (auto simp add: bit_simps)

lemma bit_ac13RemoveQM:
  "bit (ac13RemoveQM x) i \<longleftrightarrow>
     (i < 4 \<and> bit x i) \<or> (i = 4 \<and> bit x 5) \<or> (5 \<le> i \<and> i < 11 \<and> bit x (i + 2))"
proof -
  have p1: "bit (drop_bit 2 (x AND 0x1F80)) i \<longleftrightarrow> bit x (i + 2) \<and> 5 \<le> i \<and> i < 11"
    using bit_shifted_field [of 2 x 7 6 i] by (auto simp add: mask_eq_exp_minus_1 add.commute)
  have p2: "bit (drop_bit 1 (x AND 0x0020)) i \<longleftrightarrow> bit x 5 \<and> i = 4"
    using bit_shifted_single [of 1 x 5 i] by simp
  have p3: "bit (x AND 0x000F) i \<longleftrightarrow> i < 4 \<and> bit x i"
    using bit_low_field [of x 4 i] by (simp add: mask_eq_exp_minus_1)
  show ?thesis
    unfolding ac13RemoveQM_def bit_or_iff p1 p2 p3 by blast
qed

lemma ac13RemoveQM_less: "unat (ac13RemoveQM x) < 2048"
proof -
  have "take_bit 11 (ac13RemoveQM x) = ac13RemoveQM x"
    by (rule bit_word_eqI) (auto simp add: bit_simps bit_ac13RemoveQM)
  then have "unat (ac13RemoveQM x) = take_bit 11 (unat (ac13RemoveQM x))"
    by (metis unsigned_take_bit_eq)
  then show ?thesis
    using take_bit_nat_less_exp [of 11 "unat (ac13RemoveQM x)"] by simp
qed

lemma sint_small:
  assumes "- (2 ^ 31) \<le> k" and "k < 2 ^ 31"
  shows "sint (word_of_int k :: i32) = k"
  using assms by (simp add: sint_sbintrunc' signed_take_bit_int_eq_self)

lemma altitude_25ft:
  assumes "unat (n::i32) < 2048"
  shows "sint (n * 25 - 1000) = int (unat n) * 25 - 1000"
proof -
  have "int (unat n) < 2048"
    using assms by linarith
  then have u: "0 \<le> uint n" "uint n < 2048"
    by simp_all
  have "n * 25 - 1000 = word_of_int (uint n * 25 - 1000)"
    by simp
  moreover have "- (2 ^ 31) \<le> uint n * 25 - 1000" "uint n * 25 - 1000 < 2 ^ 31"
    using u by simp_all
  ultimately have "sint (n * 25 - 1000) = uint n * 25 - 1000"
    by (simp only: sint_small)
  then show ?thesis by simp
qed

lemma altitude_100ft:
  assumes "- 12 \<le> sint (a::i32)" and "sint a \<le> 21474836"
  shows "sint (a * 100) = sint a * 100"
proof -
  have "a * 100 = word_of_int (sint a * 100)"
    by simp
  moreover have "- (2 ^ 31) \<le> sint a * 100" "sint a * 100 < 2 ^ 31"
    using assms by simp_all
  ultimately show ?thesis
    by (simp only: sint_small)
qed

lemma decode13bitAltitudeCode_cases:
  assumes "byteAt f 2 = Some m2" and "byteAt f 3 = Some m3"
    and "x = push_bit 8 (ucast (m2 AND 0x1F)) OR ucast m3"
  shows "decode13bitAltitudeCode H f =
     (let f3 = f\<lparr>ac := x, acM := bit x 6, acQ := bit x 4\<rparr>;
          a = modeAToModeC H (decodeID13Field H x)
      in if \<not> bit x 6 \<and> bit x 4
         then Some (None, f3\<lparr>unit := modesUnitFeet H, altitude := ac13RemoveQM x * 25 - 1000,
                             validAltitude := True\<rparr>)
         else if \<not> bit x 6 \<and> \<not> bit x 4
         then Some (None, f3\<lparr>unit := modesUnitFeet H,
                             validAltitude := (- 12 \<le> sint a),
                             altitude := (if - 12 \<le> sint a then a else 0) * 100\<rparr>)
         else Some (None, f3\<lparr>unit := modesUnitMetres H, validAltitude := False\<rparr>))"
  unfolding decode13bitAltitudeCode_def assms(1,2) option.case assms(3) [symmetric]
  by (simp add: Let_def acM_bit acQ_bit)

text \<open>
  Claim C7. On a message of at least four bytes \<^verbatim>\<open>decode13bitAltitudeCode\<close> returns no
  error and stores the 13-bit code \<open>x\<close>, its M bit (bit 6) and its Q bit (bit 4). The
  integer \<open>n\<close> has the bits of \<open>x\<close> with the Q and M bits deleted, so \<open>n < 2048\<close>.
  With M = 0 and Q = 1 the altitude is \<open>n * 25 - 1000\<close> without wrap-around, a multiple of
  25. With M = 0 and Q = 0 the altitude is 100 times the Gillham value \<open>a\<close> (or 100 times 0
  when \<open>a < -12\<close>), a multiple of 100 as long as the product fits 32 bits. With M = 1
  the altitude is left as it was and marked invalid.
\<close>

theorem decode13bitAltitudeCode_resolution:
  assumes "message f = Some m" and "3 < length m"
  shows "let x = push_bit 8 (ucast (m ! 2 AND 0x1F)) OR ucast (m ! 3);
             n = ac13RemoveQM x;
             a = modeAToModeC H (decodeID13Field H x)
         in \<exists>g. decode13bitAltitudeCode H f = Some (None, g)
              \<and> ac g = x \<and> acM g = bit x 6 \<and> acQ g = bit x 4
              \<and> (\<forall>i. bit n i \<longleftrightarrow>
                    (i < 4 \<and> bit x i) \<or> (i = 4 \<and> bit x 5) \<or> (5 \<le> i \<and> i < 11 \<and> bit x (i + 2)))
              \<and> unat n < 2048
              \<and> (\<not> bit x 6 \<and> bit x 4 \<longrightarrow>
                    validAltitude g \<and> sint (altitude g) = int (unat n) * 25 - 1000
                    \<and> 25 dvd sint (altitude g))
              \<and> (\<not> bit x 6 \<and> \<not> bit x 4 \<and> sint a \<le> 21474836 \<longrightarrow>
                    sint (altitude g) = (if - 12 \<le> sint a then sint a else 0) * 100
                    \<and> 100 dvd sint (altitude g))
              \<and> (bit x 6 \<longrightarrow> \<not> validAltitude g \<and> altitude g = altitude f)"
proof -
  define x :: u32 where "x = push_bit 8 (ucast (m ! 2 AND 0x1F)) OR ucast (m ! 3)"
  define n where "n = ac13RemoveQM x"
  define a where "a = modeAToModeC H (decodeID13Field H x)"
  have bytes: "byteAt f 2 = Some (m ! 2)" "byteAt f 3 = Some (m ! 3)"
    using assms by (simp_all add: byteAt_def msgBytes_def)
  note dec = decode13bitAltitudeCode_cases [OF bytes x_def, of H]
  have bits: "\<forall>i. bit n i \<longleftrightarrow>
                (i < 4 \<and> bit x i) \<or> (i = 4 \<and> bit x 5) \<or> (5 \<le> i \<and> i < 11 \<and> bit x (i + 2))"
    by (simp add: n_def bit_ac13RemoveQM)
  have less: "unat n < 2048"
    by (simp add: n_def ac13RemoveQM_less)
  have alt25: "sint (n * 25 - 1000) = int (unat n) * 25 - 1000"
    by (rule altitude_25ft [OF less])
  have dvd25: "(25::int) dvd int (unat n) * 25 - 1000"
    by (rule dvd_diff) simp_all
  have alt100: "sint ((if - 12 \<le> sint a then a else 0) * 100)
                  = (if - 12 \<le> sint a then sint a else 0) * 100" if "sint a \<le> 21474836"
    using that altitude_100ft [of a] by simp
  have "\<exists>g. decode13bitAltitudeCode H f = Some (None, g)
              \<and> ac g = x \<and> acM g = bit x 6 \<and> acQ g = bit x 4
              \<and> (\<forall>i. bit n i \<longleftrightarrow>
                    (i < 4 \<and> bit x i) \<or> (i = 4 \<and> bit x 5) \<or> (5 \<le> i \<and> i < 11 \<and> bit x (i + 2)))
              \<and> unat n < 2048
              \<and> (\<not> bit x 6 \<and> bit x 4 \<longrightarrow>
                    validAltitude g \<and> sint (altitude g) = int (unat n) * 25 - 1000
                    \<and> 25 dvd sint (altitude g))
              \<and> (\<not> bit x 6 \<and> \<not> bit x 4 \<and> sint a \<le> 21474836 \<longrightarrow>
                    sint (altitude g) = (if - 12 \<le> sint a then sint a else 0) * 100
                    \<and> 100 dvd sint (altitude g))
              \<and> (bit x 6 \<longrightarrow> \<not> validAltitude g \<and> altitude g = altitude f)"
  proof -
    consider (q1) "\<not> bit x 6" "bit x 4" | (q0) "\<not> bit x 6" "\<not> bit x 4" | (metres) "bit x 6"
      by blast
    then show ?thesis
    proof cases
      case q1
      then show ?thesis
        using bits less alt25 dvd25 by (simp add: dec Let_def n_def [symmetric])
    next
      case q0
      then show ?thesis
        using bits less alt100 by (simp add: dec Let_def a_def [symmetric])
    next
      case metres
      then show ?thesis
        using bits less by (simp add: dec Let_def)
    qed
  qed
  then show ?thesis
    unfolding Let_def x_def [symmetric] n_def [symmetric] a_def [symmetric] .
qed

theorem decode13bitAltitudeCode_resolution_witness:
  "message altitudeFrame = Some [0x20, 0x00, 0x18, 0x38, 0xCA, 0x3E, 0x51]
   \<and> 3 < length [0x20, 0x00, 0x18, 0x38, 0xCA, 0x3E, 0x51 :: u8]
   \<and> (\<exists>g. decode13bitAltitudeCode exampleHelpers altitudeFrame = Some (None, g)
          \<and> ac g = 0x1838 \<and> \<not> acM g \<and> acQ g \<and> sint (altitude g) = 38000)
   \<and> message gillhamFrame = Some [0x20, 0x00, 0x00, 0x05, 0x00, 0x00, 0x00]
   \<and> (\<exists>g. decode13bitAltitudeCode exampleHelpers gillhamFrame = Some (None, g)
          \<and> ac g = 5 \<and> \<not> acM g \<and> \<not> acQ g \<and> sint (altitude g) = 500)"
proof -
  have m: "message altitudeFrame = Some [0x20, 0x00, 0x18, 0x38, 0xCA, 0x3E, 0x51]"
    by (simp add: altitudeFrame_def NewFrameFromBytes_def NewFrame_def)
  have l: "3 < length [0x20, 0x00, 0x18, 0x38, 0xCA, 0x3E, 0x51 :: u8]"
    by simp
  have m': "message gillhamFrame = Some [0x20, 0x00, 0x00, 0x05, 0x00, 0x00, 0x00]"
    by (simp add: gillhamFrame_def NewFrameFromBytes_def NewFrame_def)
  have l': "3 < length [0x20, 0x00, 0x00, 0x05, 0x00, 0x00, 0x00 :: u8]"
    by simp
  have n: "uint (ac13RemoveQM 0x1838) = 1560"
    by (simp add: ac13RemoveQM_def)
  have h: "modeAToModeC exampleHelpers (decodeID13Field exampleHelpers x) = x" for x
    by (simp add: exampleHelpers_def)
  have "\<exists>g. decode13bitAltitudeCode exampleHelpers altitudeFrame = Some (None, g)
          \<and> ac g = 0x1838 \<and> \<not> acM g \<and> acQ g \<and> sint (altitude g) = 38000"
    using decode13bitAltitudeCode_resolution [OF m l, of exampleHelpers]
    by (auto simp add: Let_def n)
  moreover have "\<exists>g. decode13bitAltitudeCode exampleHelpers gillhamFrame = Some (None, g)
          \<and> ac g = 5 \<and> \<not> acM g \<and> \<not> acQ g \<and> sint (altitude g) = 500"
    using decode13bitAltitudeCode_resolution [OF m' l', of exampleHelpers]
    by (auto simp add: Let_def h)
  ultimately show ?thesis
    using m l m' by blast
qed

subsection \<open>The ICAO address\<close>

lemma top_bits_of_large:
  assumes "192 \<le> unat (m0::u8)"
  shows "bit m0 7 \<and> bit m0 6"
proof -
  have "unat m0 < 256" using unsigned_less [of m0] by simp
  with assms have "unat m0 div 128 = 1" "unat m0 div 64 = 3" by arith+
  then have "bit (unat m0) 7" "bit (unat m0) 6" by (simp_all add: bit_iff_odd)
  then show ?thesis by (simp add: bit_unsigned_iff)
qed

lemma unat_drop3: "unat (drop_bit 3 (m0::u8)) = unat m0 div 8"
  by (simp add: drop_bit_eq_div unat_div)

text \<open>The format \<^verbatim>\<open>decodeDownLinkFormat\<close> stores is at most 24.\<close>

lemma decodeDownLinkFormat_range:
  assumes "decodeDownLinkFormat f0 = Some f"
  shows "unat (downLinkFormat f) < 25"
proof -
  obtain m0 where m0: "byteAt f0 0 = Some m0"
    using assms by (auto simp add: decodeDownLinkFormat_def split: option.splits)
  show ?thesis
  proof (cases "m0 AND 0xc0 = 0xc0")
    case True
    then show ?thesis using assms m0 by (auto simp add: decodeDownLinkFormat_def)
  next
    case False
    then have "\<not> 192 \<le> unat m0"
      using top_bits_of_large [of m0] top_two_bits [of m0] by blast
    then have "unat m0 div 8 < 24" by arith
    then show ?thesis
      using assms m0 False by (auto simp add: decodeDownLinkFormat_def unat_drop3)
  qed
qed

lemma nat_below_25:
  "(k::nat) < 25 \<Longrightarrow> k \<in> {0, 1, 2, 3, 4, 5, 6, 7, 8, 9, 10, 11, 12, 13, 14, 15, 16, 17, 18,
     19, 20, 21, 22, 23, 24}"
  by (simp; arith)

lemma format_groups:
  assumes "unat (d::u8) < 25"
  shows "d \<in> set icaoFromChecksum \<or> d \<in> set icaoZero \<or> d \<in> set icaoFromBytes"
proof -
  have *: "\<And>n. unat d = n \<Longrightarrow> d = of_nat n" by auto
  from nat_below_25 [OF assms] show ?thesis
    by (auto dest!: * simp add: icaoFromChecksum_def icaoZero_def icaoFromBytes_def)
qed

lemma icao_bytes_value:
  "unat (push_bit 16 (ucast (a::u8)) OR push_bit 8 (ucast (b::u8)) OR ucast (c::u8) :: u32)
     = 65536 * unat a + 256 * unat b + unat c"
proof -
  have bc: "push_bit 8 (ucast b) OR ucast c = (push_bit 8 (ucast b) + ucast c :: u32)"
    by (rule disjunctive_add [symmetric]) (auto simp add: bit_simps dest: bit_imp_le_length)
  have abc: "push_bit 16 (ucast a) OR (push_bit 8 (ucast b) OR ucast c)
               = (push_bit 16 (ucast a) + (push_bit 8 (ucast b) OR ucast c) :: u32)"
    by (rule disjunctive_add [symmetric]) (auto simp add: bit_simps dest: bit_imp_le_length)
  have w: "(push_bit 16 (ucast a) + (push_bit 8 (ucast b) + ucast c) :: u32)
             = of_nat (65536 * unat a + 256 * unat b + unat c)"
    by (simp add: push_bit_eq_mult)
  have "unat a < 256" "unat b < 256" "unat c < 256"
    using unsigned_less [of a] unsigned_less [of b] unsigned_less [of c] by simp_all
  then have "65536 * unat a + 256 * unat b + unat c < 2 ^ 32" by simp
  then have v: "unat (of_nat (65536 * unat a + 256 * unat b + unat c) :: u32)
               = 65536 * unat a + 256 * unat b + unat c"
    by (simp only: unat_of_nat) simp
  note abc
  also have "push_bit 16 (ucast a) + (push_bit 8 (ucast b) OR ucast c)
               = (push_bit 16 (ucast a) + (push_bit 8 (ucast b) + ucast c) :: u32)"
    by (simp only: bc)
  also note w
  finally show ?thesis
    by (simp only: v)
qed

lemma in_checksum: "d \<in> set icaoFromChecksum \<longleftrightarrow> d \<in> {0, 4, 5, 16, 20, 21}"
  by (simp add: icaoFromChecksum_def)

lemma in_bytes: "d \<in> set icaoFromBytes \<longleftrightarrow> d \<in> {11, 17, 18}"
  by (simp add: icaoFromBytes_def)

lemma bytes_not_others:
  "d \<in> {11, 17, 18} \<Longrightarrow> d \<notin> set icaoZero \<and> d \<notin> set icaoFromChecksum"
  by (auto simp add: icaoZero_def icaoFromChecksum_def)

lemma decodeICAO_checksum:
  "downLinkFormat f \<in> set icaoFromChecksum \<Longrightarrow>
     decodeICAO f = Some (f\<lparr>icao := decodeModeSChecksumAddr f\<rparr>)"
  by (simp only: decodeICAO_def if_True)

lemma decodeICAO_zero:
  "downLinkFormat f \<notin> set icaoFromChecksum \<Longrightarrow> downLinkFormat f \<in> set icaoZero \<Longrightarrow>
     decodeICAO f = Some (f\<lparr>icao := 0\<rparr>)"
  by (simp only: decodeICAO_def if_True if_False)

lemma decodeICAO_bytes:
  assumes "downLinkFormat f \<in> set icaoFromBytes"
    and "downLinkFormat f \<notin> set icaoFromChecksum" and "downLinkFormat f \<notin> set icaoZero"
    and "byteAt f 1 = Some a" and "byteAt f 2 = Some b" and "byteAt f 3 = Some c"
  shows "decodeICAO f =
           Some (f\<lparr>icao := push_bit 16 (ucast a) OR push_bit 8 (ucast b) OR ucast c\<rparr>)"
  using assms(1-3) by (simp only: decodeICAO_def if_True if_False assms(4-6) option.case)

text \<open>
  Claim C1. Let \<open>f\<close> be a frame whose downlink format \<^verbatim>\<open>decodeDownLinkFormat\<close> has just
  decoded. For the formats 0, 4, 5, 16, 20 and 21 \<^verbatim>\<open>decodeICAO\<close> sets \<open>icao\<close> to the CRC
  syndrome of all but the last three bytes of the message, XORed with the last three
  bytes. For the formats 11, 17 and 18 (and a message of at least four bytes) it sets
  \<open>icao\<close> to the big-endian value of the bytes 1 to 3. For every other format it sets
  \<open>icao\<close> to 0. No other field changes.
\<close>

theorem decodeICAO_by_format:
  assumes "decodeDownLinkFormat f0 = Some f"
  shows "(downLinkFormat f \<in> {0, 4, 5, 16, 20, 21} \<longrightarrow>
            decodeICAO f =
              Some (f\<lparr>icao := crcSyndrome 0 (take (length (msgBytes f) - 3) (msgBytes f))
                                XOR u24be (drop (length (msgBytes f) - 3) (msgBytes f))\<rparr>))
       \<and> (downLinkFormat f \<in> {11, 17, 18} \<and> 3 < length (msgBytes f) \<longrightarrow>
            (\<exists>v. decodeICAO f = Some (f\<lparr>icao := v\<rparr>)
                \<and> unat v = 65536 * unat (msgBytes f ! 1) + 256 * unat (msgBytes f ! 2)
                             + unat (msgBytes f ! 3)))
       \<and> (downLinkFormat f \<notin> {0, 4, 5, 16, 20, 21, 11, 17, 18} \<longrightarrow>
            decodeICAO f = Some (f\<lparr>icao := 0\<rparr>))"
proof (intro conjI impI)
  assume "downLinkFormat f \<in> {0, 4, 5, 16, 20, 21}"
  then have "downLinkFormat f \<in> set icaoFromChecksum"
    by (simp only: in_checksum)
  then show "decodeICAO f =
              Some (f\<lparr>icao := crcSyndrome 0 (take (length (msgBytes f) - 3) (msgBytes f))
                                XOR u24be (drop (length (msgBytes f) - 3) (msgBytes f))\<rparr>)"
    by (simp only: decodeICAO_checksum decodeModeSChecksumAddr_def Let_def)
next
  assume a: "downLinkFormat f \<in> {11, 17, 18} \<and> 3 < length (msgBytes f)"
  then have bytes: "byteAt f 1 = Some (msgBytes f ! 1)" "byteAt f 2 = Some (msgBytes f ! 2)"
      "byteAt f 3 = Some (msgBytes f ! 3)"
    by (simp_all add: byteAt_def)
  from a have g: "downLinkFormat f \<in> set icaoFromBytes" "downLinkFormat f \<notin> set icaoFromChecksum"
      "downLinkFormat f \<notin> set icaoZero"
    using bytes_not_others [of "downLinkFormat f"] in_bytes [of "downLinkFormat f"] by blast+
  show "\<exists>v. decodeICAO f = Some (f\<lparr>icao := v\<rparr>)
                \<and> unat v = 65536 * unat (msgBytes f ! 1) + 256 * unat (msgBytes f ! 2)
                             + unat (msgBytes f ! 3)"
    using decodeICAO_bytes [OF g bytes] icao_bytes_value by blast
next
  assume a: "downLinkFormat f \<notin> {0, 4, 5, 16, 20, 21, 11, 17, 18}"
  then have n: "downLinkFormat f \<notin> set icaoFromChecksum" "downLinkFormat f \<notin> set icaoFromBytes"
    unfolding in_checksum in_bytes by blast+
  then have z: "downLinkFormat f \<in> set icaoZero"
    using format_groups [OF decodeDownLinkFormat_range [OF assms]] by blast
  show "decodeICAO f = Some (f\<lparr>icao := 0\<rparr>)"
    by (rule decodeICAO_zero [OF n(1) z])
qed


lemma crcShift_1:
  "crcShift (Suc 0) r =
     (if r AND 0x800000 \<noteq> 0 then (push_bit 1 r XOR modesPolynomial) AND 0xFFFFFF
      else push_bit 1 r AND 0xFFFFFF)"
  by simp

lemma crcShift_8:
  "crcShift 8 r = crcShift (Suc 0) (crcShift (Suc 0) (crcShift (Suc 0) (crcShift (Suc 0)
     (crcShift (Suc 0) (crcShift (Suc 0) (crcShift (Suc 0) (crcShift (Suc 0) r)))))))"
  by (simp add: numeral_eq_Suc)

lemma altitudeFrame_syndrome: "crcSyndrome 0 [0x20, 0x00, 0x18, 0x38] = 0x11835B"
  by (simp add: crcShift_8 crcShift_1 modesPolynomial_def del: crcShift.simps)

lemma altitudeFrame_trailer: "u24be [0xCA, 0x3E, 0x51] = 0xCA3E51"
  by (simp add: u24be_def)

theorem decodeICAO_by_format_witness:
  "decodeDownLinkFormat altitudeFrame = Some (altitudeFrame\<lparr>downLinkFormat := 4\<rparr>)
   \<and> decodeICAO (altitudeFrame\<lparr>downLinkFormat := 4\<rparr>)
       = Some (altitudeFrame\<lparr>downLinkFormat := 4, icao := 0xDBBD0A\<rparr>)
   \<and> decodeDownLinkFormat adsbFrame = Some (adsbFrame\<lparr>downLinkFormat := 17\<rparr>)
   \<and> (\<exists>v. decodeICAO (adsbFrame\<lparr>downLinkFormat := 17\<rparr>)
             = Some (adsbFrame\<lparr>downLinkFormat := 17, icao := v\<rparr>) \<and> unat v = 0x4840D6)"
proof -
  have d4: "decodeDownLinkFormat altitudeFrame = Some (altitudeFrame\<lparr>downLinkFormat := 4\<rparr>)"
    by (simp add: decodeDownLinkFormat_def byteAt_def msgBytes_def altitudeFrame_def
          NewFrameFromBytes_def NewFrame_def)
  have d17: "decodeDownLinkFormat adsbFrame = Some (adsbFrame\<lparr>downLinkFormat := 17\<rparr>)"
    by (simp add: decodeDownLinkFormat_def byteAt_adsbFrame)
  have m4: "msgBytes (altitudeFrame\<lparr>downLinkFormat := 4\<rparr>)
              = [0x20, 0x00, 0x18, 0x38, 0xCA, 0x3E, 0x51]"
    by (simp add: msgBytes_def altitudeFrame_def NewFrameFromBytes_def NewFrame_def)
  have m17: "msgBytes (adsbFrame\<lparr>downLinkFormat := 17\<rparr>) = adsbBytes"
    by (simp add: msgBytes_def adsbFrame_def NewFrameFromBytes_def NewFrame_def)
  have "decodeICAO (altitudeFrame\<lparr>downLinkFormat := 4\<rparr>)
          = Some (altitudeFrame\<lparr>downLinkFormat := 4, icao := 0xDBBD0A\<rparr>)"
    using decodeICAO_by_format [OF d4]
    by (simp add: m4 altitudeFrame_syndrome altitudeFrame_trailer del: crcSyndrome.simps)
  moreover have "\<exists>v. decodeICAO (adsbFrame\<lparr>downLinkFormat := 17\<rparr>)
             = Some (adsbFrame\<lparr>downLinkFormat := 17, icao := v\<rparr>) \<and> unat v = 0x4840D6"
    using decodeICAO_by_format [OF d17] by (simp add: m17 adsbBytes_def)
  ultimately show ?thesis
    using d4 d17 by blast
qed


subsection \<open>The control field of DF18\<close>

lemma getMessageLengthBytes_18:
  "downLinkFormat f = 18 \<Longrightarrow> getMessageLengthBytes f = 14"
  by (simp add: getMessageLengthBytes_def modesLongMsgBytes_def)

lemma decodeCapability_fields:
  assumes "byteAt f 0 = Some m0"
  shows "\<exists>g. decodeCapability f = Some g \<and> ca g = m0 AND 7 \<and> icao g = icao f
           \<and> message g = message f \<and> downLinkFormat g = downLinkFormat f
           \<and> Frame.more g = Frame.more f"
  using assms by (simp add: decodeCapability_def Let_def)

text \<open>
  Claim C9. Take a message of 14 bytes whose format decodes to 18 and whose CRC check
  returns no error and keeps the message and the format. The dispatcher extracts the
  control field \<open>ca = message[0] AND 7\<close>. When it is not 0 the dispatcher returns the frame
  as \<^verbatim>\<open>decodeCapability\<close> left it: \<open>icao\<close> and the fields of the extension (where the
  ADS-B results live) are untouched, and \<^verbatim>\<open>decodeAdsb\<close> is not applied. When it is 0 the
  dispatcher sets \<open>icao\<close> to the bytes 1 to 3 and returns what \<^verbatim>\<open>decodeAdsb\<close> makes of that
  frame.
\<close>

theorem parse_df18_control_field:
  assumes "decodeDownLinkFormat f = Some f0" and "downLinkFormat f0 = 18"
    and "length (msgBytes f0) = 14"
    and "checkCrc H f0 = (None, f1)"
    and "message f1 = message f0" and "downLinkFormat f1 = downLinkFormat f0"
  shows "\<exists>g. decodeCapability f1 = Some g \<and> ca g = msgBytes f1 ! 0 AND 7
           \<and> (ca g \<noteq> 0 \<longrightarrow>
                 parse H f = Returns None g \<and> icao g = icao f1 \<and> Frame.more g = Frame.more f1)
           \<and> (ca g = 0 \<longrightarrow>
                 (\<exists>v. decodeICAO g = Some (g\<lparr>icao := v\<rparr>)
                     \<and> unat v = 65536 * unat (msgBytes f1 ! 1) + 256 * unat (msgBytes f1 ! 2)
                                  + unat (msgBytes f1 ! 3)
                     \<and> parse H f = Returns None (decodeAdsb H (g\<lparr>icao := v\<rparr>))))"
proof -
  have len1: "length (msgBytes f1) = 14" and df1: "downLinkFormat f1 = 18"
    using assms by (simp_all add: msgBytes_def)
  have b0: "byteAt f1 0 = Some (msgBytes f1 ! 0)"
    using len1 by (simp add: byteAt_def)
  from decodeCapability_fields [OF b0] obtain g where g: "decodeCapability f1 = Some g"
    "ca g = msgBytes f1 ! 0 AND 7" "icao g = icao f1" "message g = message f1"
    "downLinkFormat g = downLinkFormat f1" "Frame.more g = Frame.more f1"
    by blast
  have head: "parse H f =
      (if ca g = 0
       then (case decodeICAO g of None \<Rightarrow> Panics | Some g' \<Rightarrow> Returns None (decodeAdsb H g'))
       else Returns None g)"
    using assms(1-4) df1 g(1)
    by (simp add: parse_def getMessageLengthBytes_18)
  have mg: "msgBytes g = msgBytes f1"
    using g(4) by (simp add: msgBytes_def)
  have bytes: "byteAt g 1 = Some (msgBytes f1 ! 1)" "byteAt g 2 = Some (msgBytes f1 ! 2)"
    "byteAt g 3 = Some (msgBytes f1 ! 3)"
    using len1 by (simp_all add: byteAt_def mg)
  have grp: "downLinkFormat g \<in> set icaoFromBytes" "downLinkFormat g \<notin> set icaoFromChecksum"
    "downLinkFormat g \<notin> set icaoZero"
    using bytes_not_others [of "downLinkFormat g"] in_bytes [of "downLinkFormat g"] g(5) df1
    by simp_all
  note ic = decodeICAO_bytes [OF grp bytes]
  show ?thesis
    using g head ic icao_bytes_value [of "msgBytes f1 ! 1" "msgBytes f1 ! 2" "msgBytes f1 ! 3"]
    by auto
qed


lemma exampleHelpers_simps:
  "isNoOp exampleHelpers f = False" "checkCrc exampleHelpers f = (None, f)"
  "decodeAdsb exampleHelpers f = f" "decodeCommB exampleHelpers f = (None, f)"
  by (simp_all add: exampleHelpers_def)

theorem parse_df18_control_field_witness:
  "decodeDownLinkFormat controlOneFrame = Some (controlOneFrame\<lparr>downLinkFormat := 18\<rparr>)
   \<and> length (msgBytes (controlOneFrame\<lparr>downLinkFormat := 18\<rparr>)) = 14
   \<and> parse exampleHelpers controlOneFrame
       = Returns None (controlOneFrame\<lparr>downLinkFormat := 18, ca := 1\<rparr>)
   \<and> decodeDownLinkFormat controlZeroFrame = Some (controlZeroFrame\<lparr>downLinkFormat := 18\<rparr>)
   \<and> (\<exists>g. parse exampleHelpers controlZeroFrame = Returns None g
          \<and> ca g = 0 \<and> unat (icao g) = 0x4840D6)"
proof -
  let ?F1 = "controlOneFrame\<lparr>downLinkFormat := 18\<rparr>"
  let ?F0 = "controlZeroFrame\<lparr>downLinkFormat := 18\<rparr>"
  have d1: "decodeDownLinkFormat controlOneFrame = Some ?F1"
    and d0: "decodeDownLinkFormat controlZeroFrame = Some ?F0"
    by (simp_all add: decodeDownLinkFormat_def byteAt_def msgBytes_def controlOneFrame_def
          controlZeroFrame_def NewFrameFromBytes_def NewFrame_def)
  have l1: "length (msgBytes ?F1) = 14" and l0: "length (msgBytes ?F0) = 14"
    by (simp_all add: msgBytes_def controlOneFrame_def controlZeroFrame_def
          NewFrameFromBytes_def NewFrame_def)
  have c1: "decodeCapability ?F1 = Some (controlOneFrame\<lparr>downLinkFormat := 18, ca := 1\<rparr>)"
    and c0: "decodeCapability ?F0 = Some (controlZeroFrame\<lparr>downLinkFormat := 18, ca := 0\<rparr>)"
    by (simp_all add: decodeCapability_def byteAt_def msgBytes_def controlOneFrame_def
          controlZeroFrame_def NewFrameFromBytes_def NewFrame_def Let_def)
  have b0: "msgBytes ?F0 ! 1 = 0x48" "msgBytes ?F0 ! 2 = 0x40" "msgBytes ?F0 ! 3 = 0xD6"
    by (simp_all add: msgBytes_def controlZeroFrame_def NewFrameFromBytes_def NewFrame_def)
  have "parse exampleHelpers controlOneFrame
          = Returns None (controlOneFrame\<lparr>downLinkFormat := 18, ca := 1\<rparr>)"
    using parse_df18_control_field [OF d1 _ l1, of exampleHelpers ?F1] c1
    by (simp add: exampleHelpers_simps)
  moreover have "\<exists>g. parse exampleHelpers controlZeroFrame = Returns None g
          \<and> ca g = 0 \<and> unat (icao g) = 0x4840D6"
    using parse_df18_control_field [OF d0 _ l0, of exampleHelpers ?F0] c0 b0
    by (auto simp add: exampleHelpers_simps)
  ultimately show ?thesis
    using d1 l1 d0 by blast
qed

subsection \<open>The message length and the downlink format\<close>

lemma samePayload_refl: "samePayload f f"
  by (simp add: samePayload_def)

lemma samePayload_trans: "samePayload f g \<Longrightarrow> samePayload g h \<Longrightarrow> samePayload f h"
  by (simp add: samePayload_def)

lemma keeps_simple:
  "keepsPayload f (decodeCapability f)"
  "keepsPayload f (decodeCrossLinkCapability f)"
  "keepsPayload f (decodeVerticalStatus f)"
  "keepsPayload f (decodeReplyInformation f)"
  "keepsPayload f (decodeSensitivityLevel f)"
  "keepsPayload f (decodeDownLinkRequest f)"
  "keepsPayload f (decodeUtilityMessage f)"
  "keepsPayload f (decodeSquawkIdentity i j f)"
  by (simp_all add: keepsPayload_def samePayload_def decodeCapability_def
        decodeCrossLinkCapability_def decodeVerticalStatus_def decodeReplyInformation_def
        decodeSensitivityLevel_def decodeDownLinkRequest_def decodeUtilityMessage_def
        decodeSquawkIdentity_def Let_def split: option.split)

lemma keeps_flight_status: "keepsPayload f (decodeFlightStatus H f)"
  by (simp add: keepsPayload_def samePayload_def decodeFlightStatus_def Let_def
      split: option.split)

lemma keeps_icao: "keepsPayload f (decodeICAO f)"
  by (simp add: keepsPayload_def samePayload_def decodeICAO_def split: option.split)

lemma keeps_altitude: "keepsPayload2 f (decode13bitAltitudeCode H f)"
  by (simp add: keepsPayload2_def samePayload_def decode13bitAltitudeCode_def Let_def
      split: option.split)

lemma keeps_bind:
  assumes "keepsPayload f x" and "\<And>a. keepsPayload a (d a)"
  shows "keepsPayload f (x \<bind> d)"
proof (cases x)
  case None
  then show ?thesis by (simp add: keepsPayload_def)
next
  case (Some a)
  with assms(1) have fa: "samePayload f a" by (simp add: keepsPayload_def)
  show ?thesis
  proof (cases "d a")
    case None
    with Some show ?thesis by (simp add: keepsPayload_def)
  next
    case (Some g)
    with assms(2) [of a] have "samePayload a g" by (simp add: keepsPayload_def)
    with fa have "samePayload f g" by (rule samePayload_trans)
    with Some \<open>x = Some a\<close> show ?thesis by (simp add: keepsPayload_def)
  qed
qed

lemma keeps_bind2:
  assumes "keepsPayload f x" and "\<And>a. keepsPayload2 a (d a)"
  shows "keepsPayload2 f (x \<bind> d)"
proof (cases x)
  case None
  then show ?thesis by (simp add: keepsPayload2_def)
next
  case (Some a)
  with assms(1) have fa: "samePayload f a" by (simp add: keepsPayload_def)
  show ?thesis
  proof (cases "d a")
    case None
    with Some show ?thesis by (simp add: keepsPayload2_def)
  next
    case (Some p)
    obtain e g where p: "p = (e, g)" by (cases p)
    with Some assms(2) [of a] have "samePayload a g" by (simp add: keepsPayload2_def)
    with fa have "samePayload f g" by (rule samePayload_trans)
    with Some p \<open>x = Some a\<close> show ?thesis by (simp add: keepsPayload2_def)
  qed
qed

lemmas keeps_chain = keeps_bind keeps_bind2 keeps_simple keeps_flight_status keeps_icao
  keeps_altitude

lemma out_pair:
  "keepsPayload2 f x \<Longrightarrow>
     outcomeKeepsPayload f (case x of None \<Rightarrow> Panics | Some (err, g) \<Rightarrow> Returns err g)"
  by (cases x) (auto simp add: keepsPayload2_def outcomeKeepsPayload_def)

lemma out_plain:
  "keepsPayload f x \<Longrightarrow>
     outcomeKeepsPayload f (case x of None \<Rightarrow> Panics | Some g \<Rightarrow> Returns None g)"
  by (cases x) (auto simp add: keepsPayload_def outcomeKeepsPayload_def)

lemma out_then:
  assumes "keepsPayload2 f x" and "\<And>g. keepsPayload g (y g)"
  shows "outcomeKeepsPayload f
           (case x of None \<Rightarrow> Panics
            | Some (err, g) \<Rightarrow> (case y g of None \<Rightarrow> Panics | Some g' \<Rightarrow> Returns err g'))"
proof (cases x)
  case None
  then show ?thesis by (simp add: outcomeKeepsPayload_def)
next
  case (Some p)
  obtain err g where p: "p = (err, g)" by (cases p)
  with Some assms(1) have fg: "samePayload f g" by (simp add: keepsPayload2_def)
  show ?thesis
  proof (cases "y g")
    case None
    with Some p show ?thesis by (simp add: outcomeKeepsPayload_def)
  next
    case (Some g')
    with assms(2) [of g] have "samePayload g g'" by (simp add: keepsPayload_def)
    with fg have "samePayload f g'" by (rule samePayload_trans)
    with Some p \<open>x = Some p\<close> show ?thesis by (simp add: outcomeKeepsPayload_def)
  qed
qed

lemma out_adsb:
  assumes "keepsPayload f x" and "\<And>a. samePayload a (A a)"
  shows "outcomeKeepsPayload f (case x of None \<Rightarrow> Panics | Some g \<Rightarrow> Returns None (A g))"
proof (cases x)
  case None
  then show ?thesis by (simp add: outcomeKeepsPayload_def)
next
  case (Some g)
  with assms(1) have "samePayload f g" by (simp add: keepsPayload_def)
  then have "samePayload f (A g)" using assms(2) [of g] by (rule samePayload_trans)
  with Some show ?thesis by (simp add: outcomeKeepsPayload_def)
qed

lemma out_commb:
  assumes "keepsPayload f x" and "\<And>a e b. C a = (e, b) \<Longrightarrow> samePayload a b"
  shows "outcomeKeepsPayload f
           (case x of None \<Rightarrow> Panics | Some g \<Rightarrow> (case C g of (err, g') \<Rightarrow> Returns err g'))"
proof (cases x)
  case None
  then show ?thesis by (simp add: outcomeKeepsPayload_def)
next
  case (Some g)
  with assms(1) have fg: "samePayload f g" by (simp add: keepsPayload_def)
  obtain err g' where c: "C g = (err, g')" by (cases "C g")
  from fg assms(2) [OF c] have "samePayload f g'" by (rule samePayload_trans)
  with Some c show ?thesis by (simp add: outcomeKeepsPayload_def)
qed

lemma out_commb2:
  assumes "keepsPayload2 f x" and "\<And>a e b. C a = (e, b) \<Longrightarrow> samePayload a b"
  shows "outcomeKeepsPayload f
           (case x of None \<Rightarrow> Panics
            | Some (u, g) \<Rightarrow> (case C g of (err, g') \<Rightarrow> Returns err g'))"
proof (cases x)
  case None
  then show ?thesis by (simp add: outcomeKeepsPayload_def)
next
  case (Some p)
  obtain u g where p: "p = (u, g)" by (cases p)
  with Some assms(1) have fg: "samePayload f g" by (simp add: keepsPayload2_def)
  obtain err g' where c: "C g = (err, g')" by (cases "C g")
  from fg assms(2) [OF c] have "samePayload f g'" by (rule samePayload_trans)
  with Some p c show ?thesis by (simp add: outcomeKeepsPayload_def)
qed

lemma out_control:
  assumes "keepsPayload f x" and "\<And>g. keepsPayload g (y g)" and "\<And>a. samePayload a (A a)"
  shows "outcomeKeepsPayload f
           (case x of None \<Rightarrow> Panics
            | Some g \<Rightarrow>
                if c g then (case y g of None \<Rightarrow> Panics | Some g' \<Rightarrow> Returns None (A g'))
                else Returns None g)"
proof (cases x)
  case None
  then show ?thesis by (simp add: outcomeKeepsPayload_def)
next
  case (Some g)
  with assms(1) have fg: "samePayload f g" by (simp add: keepsPayload_def)
  have "outcomeKeepsPayload g (case y g of None \<Rightarrow> Panics | Some g' \<Rightarrow> Returns None (A g'))"
    by (rule out_adsb [OF assms(2) assms(3)])
  then have "outcomeKeepsPayload f (case y g of None \<Rightarrow> Panics | Some g' \<Rightarrow> Returns None (A g'))"
    using fg by (auto simp add: outcomeKeepsPayload_def split: outcome.splits option.splits
        intro: samePayload_trans)
  with Some fg show ?thesis by (simp add: outcomeKeepsPayload_def)
qed

lemma out_same: "outcomeKeepsPayload f (Returns e f)"
  by (simp add: outcomeKeepsPayload_def samePayload_refl)

lemma parse_keeps_payload:
  assumes keep: "helpersKeepPayload H"
    and f0: "decodeDownLinkFormat f = Some f0"
  shows "outcomeKeepsPayload f0 (parse H f)"
proof (cases "getMessageLengthBytes f0 = length (msgBytes f0)")
  case False
  then show ?thesis
    using f0 by (simp add: parse_def outcomeKeepsPayload_def samePayload_refl)
next
  case True
  have crc: "samePayload a b" if "checkCrc H a = (e, b)" for a e b
    using keep that by (metis helpersKeepPayload_def snd_conv)
  have adsb: "samePayload a (decodeAdsb H a)" for a
    using keep by (simp add: helpersKeepPayload_def)
  have commb: "samePayload a b" if "decodeCommB H a = (e, b)" for a e b
    using keep that by (metis helpersKeepPayload_def snd_conv)
  obtain e1 f1 where c: "checkCrc H f0 = (e1, f1)" by (cases "checkCrc H f0")
  note p1 = crc [OF c]
  show ?thesis
  proof (cases e1)
    case (Some e)
    then show ?thesis
      using f0 True c p1 by (simp add: parse_def outcomeKeepsPayload_def)
  next
    case None
    have k0: "keepsPayload2 f1 (decodeICAO f1 \<bind> decodeVerticalStatus \<bind> decodeCrossLinkCapability
                              \<bind> decodeSensitivityLevel \<bind> decodeReplyInformation
                              \<bind> decode13bitAltitudeCode H)"
      and k4: "keepsPayload2 f1 (decodeICAO f1 \<bind> decodeFlightStatus H \<bind> decodeDownLinkRequest
                              \<bind> decodeUtilityMessage \<bind> decode13bitAltitudeCode H)"
      and k5: "keepsPayload f1 (decodeICAO f1 \<bind> decodeFlightStatus H \<bind> decodeDownLinkRequest
                              \<bind> decodeUtilityMessage \<bind> decodeSquawkIdentity 2 3)"
      and k11: "keepsPayload f1 (decodeICAO f1 \<bind> decodeCapability)"
      and k16: "keepsPayload2 f1 (decodeICAO f1 \<bind> decodeVerticalStatus
                              \<bind> decode13bitAltitudeCode H)"
      and k16': "\<And>g. keepsPayload g (decodeReplyInformation g \<bind> decodeSensitivityLevel)"
      and k18: "keepsPayload f1 (decodeCapability f1)"
      and k18': "\<And>g. keepsPayload g (decodeICAO g)"
      and k20: "keepsPayload2 f1 (decodeICAO f1 \<bind> decodeFlightStatus H
                              \<bind> decode13bitAltitudeCode H)"
      and k21: "keepsPayload f1 (decodeICAO f1 \<bind> decodeFlightStatus H
                              \<bind> decodeSquawkIdentity 2 3)"
      by (intro keeps_chain)+
    have "outcomeKeepsPayload f1 (parse H f)"
      unfolding parse_def f0 option.case c None prod.case
      using True
      by (simp del: Option.bind_assoc add: out_pair [OF k0] out_pair [OF k4] out_plain [OF k5] out_plain [OF k11]
            out_then [OF k16 k16'] out_adsb [OF k11 adsb] out_control [OF k18 k18' adsb]
            out_commb2 [OF k20 commb] out_commb [OF k21 commb] out_same)
    then show ?thesis
      using p1 by (auto simp add: outcomeKeepsPayload_def split: outcome.splits
            intro: samePayload_trans)
  qed
qed

lemma and_16_bit: "((d::u8) AND 0x10 \<noteq> 0) = bit d 4"
  using and_single_bit [of d 4] by simp

lemma bit4_iff_ge:
  assumes "unat (d::u8) < 32"
  shows "bit d 4 \<longleftrightarrow> 16 \<le> d"
proof -
  have "bit d 4 \<longleftrightarrow> bit (unat d) 4"
    by (simp add: bit_unsigned_iff)
  also have "\<dots> \<longleftrightarrow> odd (unat d div 16)"
    by (simp add: bit_iff_odd)
  also have "\<dots> \<longleftrightarrow> 16 \<le> unat d"
  proof
    assume "odd (unat d div 16)"
    then have "unat d div 16 \<noteq> 0" by (metis even_zero)
    then show "16 \<le> unat d" by arith
  next
    assume "16 \<le> unat d"
    with assms have "unat d div 16 = 1" by arith
    then show "odd (unat d div 16)" by simp
  qed
  also have "\<dots> \<longleftrightarrow> 16 \<le> d"
    by (simp add: word_le_nat_alt)
  finally show ?thesis .
qed

lemma getMessageLengthBytes_bit:
  "getMessageLengthBytes f = (if bit (downLinkFormat f) 4 then 14 else 7)"
  by (simp add: getMessageLengthBytes_def and_16_bit modesLongMsgBytes_def modesShortMsgBytes_def)

lemma decodeDownLinkFormat_only:
  "decodeDownLinkFormat f = Some f0 \<Longrightarrow> f0 = f\<lparr>downLinkFormat := downLinkFormat f0\<rparr>"
  by (auto simp add: decodeDownLinkFormat_def split: option.splits if_splits)

lemma parse_length_mismatch:
  assumes "decodeDownLinkFormat f = Some f0"
    and "length (msgBytes f0) \<noteq> (if bit (downLinkFormat f0) 4 then 14 else 7)"
  shows "parse H f = Returns (Some (ErrLengthMismatch (if bit (downLinkFormat f0) 4 then 14 else 7)
                                      (length (msgBytes f0)))) f0"
  using assms by (simp add: parse_def getMessageLengthBytes_bit)

lemma parse_success_length:
  assumes keep: "helpersKeepPayload H"
    and ok: "parse H f = Returns None g"
  shows "length (msgBytes g) = (if 16 \<le> downLinkFormat g then 14 else 7)"
proof -
  from ok obtain f0 where f0: "decodeDownLinkFormat f = Some f0"
    by (auto simp add: parse_def split: option.splits)
  have len: "length (msgBytes f0) = (if bit (downLinkFormat f0) 4 then 14 else 7)"
  proof (rule ccontr)
    assume "length (msgBytes f0) \<noteq> (if bit (downLinkFormat f0) 4 then 14 else 7)"
    then have "parse H f = Returns (Some (ErrLengthMismatch
        (if bit (downLinkFormat f0) 4 then 14 else 7) (length (msgBytes f0)))) f0"
      by (rule parse_length_mismatch [OF f0])
    with ok show False by simp
  qed
  have "samePayload f0 g"
    using parse_keeps_payload [OF keep f0] ok by (simp add: outcomeKeepsPayload_def)
  then have same: "msgBytes g = msgBytes f0" "downLinkFormat g = downLinkFormat f0"
    by (simp_all add: samePayload_def msgBytes_def)
  have "unat (downLinkFormat f0) < 32"
    using decodeDownLinkFormat_range [OF f0] by simp
  then show ?thesis
    using len same by (simp add: bit4_iff_ge)
qed

lemma Decode_success_parse:
  assumes "\<not> hasDecoded f" and "Decode H (Some f) = Returns None (Some g)"
  shows "\<exists>f' g'. parse H f' = Returns None g' \<and> g = g'\<lparr>hasDecoded := True\<rparr>"
  using assms
  by (auto simp add: Decode_def decodeBody_def
      split: if_splits prod.splits option.splits outcome.splits)

text \<open>
  Claim C2. Let the methods declared outside decode.go keep the payload. When
  \<^verbatim>\<open>Decode\<close> returns nil on a frame that was not decoded before, the message has 7 bytes
  exactly when the downlink format is below 16 and 14 bytes exactly when it is 16 or
  more. When the length of the message differs from the length the decoded format
  implies (14 when bit 4 of the format is set, 7 otherwise), \<^verbatim>\<open>parse\<close> returns the
  length-mismatch error with nothing changed but \<open>downLinkFormat\<close>, and so does
  \<^verbatim>\<open>Decode\<close> on a frame built from bytes, and on a text frame \<open>t\<close> whose text parses into
  that message and which is not a no-op.
\<close>

theorem length_matches_downlink_format:
  assumes keep: "helpersKeepPayload H"
  shows "(\<not> hasDecoded f \<and> Decode H (Some f) = Returns None (Some g) \<longrightarrow>
            (length (msgBytes g) = 7 \<longleftrightarrow> downLinkFormat g < 16)
            \<and> (length (msgBytes g) = 14 \<longleftrightarrow> 16 \<le> downLinkFormat g))
       \<and> (decodeDownLinkFormat f = Some f0
            \<and> length (msgBytes f0) \<noteq> (if bit (downLinkFormat f0) 4 then 14 else 7) \<longrightarrow>
            f0 = f\<lparr>downLinkFormat := downLinkFormat f0\<rparr>
            \<and> parse H f =
                Returns (Some (ErrLengthMismatch (if bit (downLinkFormat f0) 4 then 14 else 7)
                                 (length (msgBytes f0)))) f0
            \<and> (\<not> hasDecoded f \<and> fromBytes f \<longrightarrow>
                 Decode H (Some f) =
                   Returns (Some (ErrLengthMismatch (if bit (downLinkFormat f0) 4 then 14 else 7)
                                    (length (msgBytes f0)))) (Some f0))
            \<and> (\<not> hasDecoded t \<and> \<not> fromBytes t \<and> parseIntoRaw t = (None, f) \<and> \<not> isNoOp H f \<longrightarrow>
                 Decode H (Some t) =
                   Returns (Some (ErrLengthMismatch (if bit (downLinkFormat f0) 4 then 14 else 7)
                                    (length (msgBytes f0)))) (Some f0)))"
proof (intro conjI impI)
  assume a: "\<not> hasDecoded f \<and> Decode H (Some f) = Returns None (Some g)"
  then obtain f' g' where p: "parse H f' = Returns None g'" and g: "g = g'\<lparr>hasDecoded := True\<rparr>"
    using Decode_success_parse [of f H g] by blast
  have "length (msgBytes g') = (if 16 \<le> downLinkFormat g' then 14 else 7)"
    by (rule parse_success_length [OF keep p])
  then have l: "length (msgBytes g) = (if 16 \<le> downLinkFormat g then 14 else 7)"
    by (simp add: g msgBytes_def)
  show "length (msgBytes g) = 7 \<longleftrightarrow> downLinkFormat g < 16"
    using l by (auto simp add: not_le)
  show "length (msgBytes g) = 14 \<longleftrightarrow> 16 \<le> downLinkFormat g"
    using l by auto
next
  assume a: "decodeDownLinkFormat f = Some f0
            \<and> length (msgBytes f0) \<noteq> (if bit (downLinkFormat f0) 4 then 14 else 7)"
  then show "f0 = f\<lparr>downLinkFormat := downLinkFormat f0\<rparr>"
    using decodeDownLinkFormat_only by blast
  from a have p: "parse H f =
                Returns (Some (ErrLengthMismatch (if bit (downLinkFormat f0) 4 then 14 else 7)
                                 (length (msgBytes f0)))) f0"
    using parse_length_mismatch by blast
  then show "parse H f =
                Returns (Some (ErrLengthMismatch (if bit (downLinkFormat f0) 4 then 14 else 7)
                                 (length (msgBytes f0)))) f0" .
  {
    assume "\<not> hasDecoded f \<and> fromBytes f"
    then show "Decode H (Some f) =
                   Returns (Some (ErrLengthMismatch (if bit (downLinkFormat f0) 4 then 14 else 7)
                                    (length (msgBytes f0)))) (Some f0)"
      using p by (simp add: Decode_def decodeBody_def)
  }
  {
    assume "\<not> hasDecoded t \<and> \<not> fromBytes t \<and> parseIntoRaw t = (None, f) \<and> \<not> isNoOp H f"
    then show "Decode H (Some t) =
                   Returns (Some (ErrLengthMismatch (if bit (downLinkFormat f0) 4 then 14 else 7)
                                    (length (msgBytes f0)))) (Some f0)"
      using p by (simp add: Decode_def decodeBody_def)
  }
qed

subsection \<open>Decoding twice\<close>

text \<open>
  When a call of \<^verbatim>\<open>Decode\<close> returns nil and leaves the state \<open>q\<close>, a later call
  returns nil and leaves \<open>q\<close> as it is, whatever the methods declared elsewhere do: it
  returns at the nil test or at the \<open>hasDecoded\<close> test and calls none of them.
\<close>

theorem Decode_idempotent_after_success:
  assumes "Decode H p = Returns None q"
  shows "Decode H' q = Returns None q"
  using assms
  by (auto simp add: Decode_def decodeBody_def
      split: if_splits prod.splits option.splits outcome.splits)


lemma Decode_acquisitionFrame:
  "Decode exampleHelpers (Some acquisitionFrame) =
     Returns None (Some (acquisitionFrame\<lparr>downLinkFormat := 11, icao := 0x7C49F8, ca := 5,
                            validVerticalStatus := True, onGround := False,
                            hasDecoded := True\<rparr>))"
  by (simp add: Decode_def decodeBody_def parse_def decodeDownLinkFormat_def byteAt_def
        msgBytes_def acquisitionFrame_def NewFrameFromBytes_def NewFrame_def
        getMessageLengthBytes_def modesShortMsgBytes_def modesLongMsgBytes_def
        exampleHelpers_simps decodeICAO_def icaoFromChecksum_def icaoZero_def icaoFromBytes_def
        decodeCapability_def Let_def)

theorem length_matches_downlink_format_witness:
  "\<not> hasDecoded acquisitionFrame
   \<and> Decode exampleHelpers (Some acquisitionFrame) =
       Returns None (Some (acquisitionFrame\<lparr>downLinkFormat := 11, icao := 0x7C49F8, ca := 5,
                            validVerticalStatus := True, onGround := False,
                            hasDecoded := True\<rparr>))
   \<and> (length (msgBytes (acquisitionFrame\<lparr>downLinkFormat := 11, icao := 0x7C49F8, ca := 5,
                            validVerticalStatus := True, onGround := False,
                            hasDecoded := True\<rparr>)) = 7)
   \<and> decodeDownLinkFormat truncatedFrame = Some (truncatedFrame\<lparr>downLinkFormat := 18\<rparr>)
   \<and> length (msgBytes (truncatedFrame\<lparr>downLinkFormat := 18\<rparr>)) = 7
   \<and> Decode exampleHelpers (Some truncatedFrame)
       = Returns (Some (ErrLengthMismatch 14 7)) (Some (truncatedFrame\<lparr>downLinkFormat := 18\<rparr>))"
proof -
  let ?G = "acquisitionFrame\<lparr>downLinkFormat := 11, icao := 0x7C49F8, ca := 5,
                            validVerticalStatus := True, onGround := False,
                            hasDecoded := True\<rparr>"
  let ?T = "truncatedFrame\<lparr>downLinkFormat := 18\<rparr>"
  have keep: "helpersKeepPayload exampleHelpers"
    by (simp add: helpersKeepPayload_def exampleHelpers_simps samePayload_def)
  have nd: "\<not> hasDecoded acquisitionFrame" "\<not> hasDecoded truncatedFrame" "fromBytes truncatedFrame"
    by (simp_all add: acquisitionFrame_def truncatedFrame_def NewFrameFromBytes_def NewFrame_def)
  have d18: "decodeDownLinkFormat truncatedFrame = Some ?T"
    by (simp add: decodeDownLinkFormat_def byteAt_def msgBytes_def truncatedFrame_def
          NewFrameFromBytes_def NewFrame_def)
  have l18: "length (msgBytes ?T) = 7"
    by (simp add: msgBytes_def truncatedFrame_def NewFrameFromBytes_def NewFrame_def)
  have b18: "bit (downLinkFormat ?T) 4"
    by simp
  have df: "downLinkFormat ?G < 16"
    by simp
  from length_matches_downlink_format [OF keep, where f = acquisitionFrame and g = ?G,
      THEN conjunct1]
  have "length (msgBytes ?G) = 7 \<longleftrightarrow> downLinkFormat ?G < 16"
    using nd(1) Decode_acquisitionFrame by blast
  then have l: "length (msgBytes ?G) = 7"
    using df by blast
  from length_matches_downlink_format [OF keep, where f = truncatedFrame and ?f0.0 = ?T,
      THEN conjunct2]
  have "Decode exampleHelpers (Some truncatedFrame)
       = Returns (Some (ErrLengthMismatch (if bit (downLinkFormat ?T) 4 then 14 else 7)
                          (length (msgBytes ?T)))) (Some ?T)"
    using nd(2,3) d18 l18 b18 by force
  then have "Decode exampleHelpers (Some truncatedFrame)
       = Returns (Some (ErrLengthMismatch 14 7)) (Some ?T)"
    by (simp only: b18 l18 if_True)
  with nd(1) Decode_acquisitionFrame l d18 l18 show ?thesis
    by blast
qed


theorem Decode_idempotent_after_success_witness:
  "Decode exampleHelpers (Some acquisitionFrame) =
     Returns None (Some (acquisitionFrame\<lparr>downLinkFormat := 11, icao := 0x7C49F8, ca := 5,
                            validVerticalStatus := True, onGround := False,
                            hasDecoded := True\<rparr>))
   \<and> Decode exampleHelpers (Some (acquisitionFrame\<lparr>downLinkFormat := 11, icao := 0x7C49F8, ca := 5,
                            validVerticalStatus := True, onGround := False,
                            hasDecoded := True\<rparr>)) =
     Returns None (Some (acquisitionFrame\<lparr>downLinkFormat := 11, icao := 0x7C49F8, ca := 5,
                            validVerticalStatus := True, onGround := False,
                            hasDecoded := True\<rparr>))"
  using Decode_idempotent_after_success [OF Decode_acquisitionFrame, of exampleHelpers]
    Decode_acquisitionFrame by simp

subsection \<open>Hexadecimal digits\<close>

lemma or_exp: "(c::nat) OR 2 ^ k = (if bit c k then c else c + 2 ^ k)"
proof (cases "bit c k")
  case True
  have "c OR 2 ^ k = c"
    by (rule bit_eqI) (use True in \<open>auto simp add: bit_simps\<close>)
  with True show ?thesis by simp
next
  case False
  have "c + 2 ^ k = c OR 2 ^ k"
    by (rule disjunctive_add) (use False in \<open>auto simp add: bit_simps\<close>)
  with False show ?thesis by simp
qed

lemma lower_eq: "lower c = (if odd (c div 32) then c else c + 32)"
  using or_exp [of c 5] by (simp add: lower_def bit_iff_odd)

lemma lower_upper:
  assumes "65 \<le> c" and "c \<le> 70"
  shows "lower c = c + 32"
proof -
  have "c div 32 = 2" using assms by arith
  then show ?thesis by (simp add: lower_eq)
qed

lemma lower_lower:
  assumes "97 \<le> c" and "c \<le> 122"
  shows "lower c = c"
proof -
  have "c div 32 = 3" using assms by arith
  then show ?thesis by (simp add: lower_eq)
qed

lemma lower_range:
  assumes "97 \<le> lower c" and "lower c \<le> 122"
  shows "(65 \<le> c \<and> c \<le> 90 \<and> lower c = c + 32) \<or> (97 \<le> c \<and> c \<le> 122 \<and> lower c = c)"
proof (cases "odd (c div 32)")
  case True
  then show ?thesis using assms by (simp add: lower_eq)
next
  case False
  then show ?thesis using assms by (simp add: lower_eq)
qed

lemma digitOf_hex:
  "isHexDigit ch \<Longrightarrow> digitOf ch = Some (hexDigitValue ch) \<and> hexDigitValue ch < 16"
  by (auto simp add: isHexDigit_def digitOf_def hexDigitValue_def Let_def lower_upper lower_lower)

lemma digitOf_not_hex:
  assumes "\<not> isHexDigit ch"
  shows "digitOf ch = None \<or> (\<exists>d. digitOf ch = Some d \<and> 16 \<le> d)"
proof (cases "digitOf ch")
  case None
  then show ?thesis by simp
next
  case (Some d)
  let ?c = "of_char ch :: nat"
  from assms have n: "\<not> (48 \<le> ?c \<and> ?c \<le> 57)" "\<not> (65 \<le> ?c \<and> ?c \<le> 70)"
    "\<not> (97 \<le> ?c \<and> ?c \<le> 102)"
    by (simp_all add: isHexDigit_def Let_def)
  with Some have r: "97 \<le> lower ?c" "lower ?c \<le> 122" and d: "d = lower ?c - 97 + 10"
    by (auto simp add: digitOf_def Let_def split: if_splits)
  from lower_range [OF r] n d have "16 \<le> d" by auto
  with Some show ?thesis by simp
qed

lemma cutoff_16: "(2 ^ 64 - 1) div 16 + 1 = (2 ^ 60 :: nat)"
  by simp

lemma parseUintLoop_step:
  assumes "isHexDigit ch" and "n < 2 ^ 60" and "n * 16 + hexDigitValue ch \<le> M" and "M < 2 ^ 64"
  shows "parseUintLoop 16 M n (ch # cs) = parseUintLoop 16 M (n * 16 + hexDigitValue ch) cs"
proof -
  from digitOf_hex [OF assms(1)] have d: "digitOf ch = Some (hexDigitValue ch)"
    and l: "hexDigitValue ch < 16" by simp_all
  show ?thesis
    using assms(2,3,4) l by (simp add: d Let_def)
qed

lemma parseUintLoop_bad:
  assumes "\<not> isHexDigit ch"
  shows "parseUintLoop 16 M n (ch # cs) = (0, Some ErrSyntax)"
  using digitOf_not_hex [OF assms] by auto

lemma loop_bounds:
  assumes "(n + 1) * 16 ^ Suc k \<le> M + 1" and "M < (2 ^ 64 :: nat)" and "d < 16"
  shows "n < 2 ^ 60" and "n * 16 + d \<le> M" and "(n * 16 + d + 1) * 16 ^ k \<le> M + 1"
proof -
  have s: "(16::nat) \<le> 16 ^ Suc k" by simp
  have "(n + 1) * 16 \<le> (n + 1) * 16 ^ Suc k"
    by (rule mult_le_mono2 [OF s])
  then have "(n + 1) * 16 \<le> M + 1"
    using assms(1) by (rule le_trans)
  then show "n < 2 ^ 60" using assms(2) by simp
  have le: "n * 16 + d + 1 \<le> (n + 1) * 16" using assms(3) by simp
  have e: "(n + 1) * 16 * 16 ^ k = (n + 1) * 16 ^ Suc k" by (simp only: power_Suc mult.assoc)
  have "(n * 16 + d + 1) * 16 ^ k \<le> (n + 1) * 16 * 16 ^ k"
    by (rule mult_le_mono1 [OF le])
  then show b: "(n * 16 + d + 1) * 16 ^ k \<le> M + 1"
    unfolding e using assms(1) by (rule le_trans)
  have one: "(1::nat) \<le> 16 ^ k" by simp
  have "(n * 16 + d + 1) * 1 \<le> (n * 16 + d + 1) * 16 ^ k"
    by (rule mult_le_mono2 [OF one])
  then have "(n * 16 + d + 1) * 1 \<le> M + 1"
    using b by (rule le_trans)
  then show "n * 16 + d \<le> M" by simp
qed

lemma parseUintLoop_hex:
  assumes "list_all isHexDigit s" and "(n + 1) * 16 ^ length s \<le> M + 1" and "M < 2 ^ 64"
  shows "parseUintLoop 16 M n s = (hexNumber n s, None)"
  using assms
proof (induction s arbitrary: n)
  case Nil
  then show ?case by (simp add: hexNumber_def)
next
  case (Cons ch cs)
  from Cons.prems(1) have h: "isHexDigit ch" and hs: "list_all isHexDigit cs" by simp_all
  from digitOf_hex [OF h] have l: "hexDigitValue ch < 16" by simp
  from Cons.prems(2) have p: "(n + 1) * 16 ^ Suc (length cs) \<le> M + 1" by simp
  note b = loop_bounds [OF p Cons.prems(3) l]
  have "parseUintLoop 16 M n (ch # cs) = parseUintLoop 16 M (n * 16 + hexDigitValue ch) cs"
    by (rule parseUintLoop_step [OF h b(1) b(2) Cons.prems(3)])
  also have "\<dots> = (hexNumber (n * 16 + hexDigitValue ch) cs, None)"
    by (rule Cons.IH [OF hs b(3) Cons.prems(3)])
  finally show ?case by (simp add: hexNumber_def)
qed

lemma parseUintLoop_not_hex:
  assumes "\<not> list_all isHexDigit s" and "(n + 1) * 16 ^ length s \<le> M + 1" and "M < 2 ^ 64"
  shows "parseUintLoop 16 M n s = (0, Some ErrSyntax)"
  using assms
proof (induction s arbitrary: n)
  case Nil
  then show ?case by simp
next
  case (Cons ch cs)
  show ?case
  proof (cases "isHexDigit ch")
    case False
    then show ?thesis by (rule parseUintLoop_bad)
  next
    case True
    with Cons.prems(1) have hs: "\<not> list_all isHexDigit cs" by simp
    from digitOf_hex [OF True] have l: "hexDigitValue ch < 16" by simp
    from Cons.prems(2) have p: "(n + 1) * 16 ^ Suc (length cs) \<le> M + 1" by simp
    note b = loop_bounds [OF p Cons.prems(3) l]
    have "parseUintLoop 16 M n (ch # cs) = parseUintLoop 16 M (n * 16 + hexDigitValue ch) cs"
      by (rule parseUintLoop_step [OF True b(1) b(2) Cons.prems(3)])
    also have "\<dots> = (0, Some ErrSyntax)"
      by (rule Cons.IH [OF hs b(3) Cons.prems(3)])
    finally show ?thesis .
  qed
qed

lemma ParseUint_pair:
  "ParseUint [x, y] 16 8 =
     (if isHexDigit x \<and> isHexDigit y then (16 * hexDigitValue x + hexDigitValue y, None)
      else (0, Some ErrSyntax))"
proof -
  have b: "(0 + 1) * 16 ^ length [x, y] \<le> (255::nat) + 1" "(255::nat) < 2 ^ 64"
    by simp_all
  show ?thesis
  proof (cases "list_all isHexDigit [x, y]")
    case True
    from parseUintLoop_hex [OF True b] True show ?thesis
      by (simp add: ParseUint_def hexNumber_def)
  next
    case False
    from parseUintLoop_not_hex [OF False b] False show ?thesis
      by (auto simp add: ParseUint_def)
  qed
qed

lemma ParseUint_timestamp:
  assumes "length s = 11"
  shows "ParseUint s 16 64 =
     (if list_all isHexDigit s then (hexNumber 0 s, None) else (0, Some ErrSyntax))"
proof -
  have b: "(0 + 1) * 16 ^ length s \<le> (2 ^ 64 - 1 :: nat) + 1" "(2 ^ 64 - 1 :: nat) < 2 ^ 64"
    using assms by simp_all
  have ne: "s \<noteq> []" using assms by auto
  show ?thesis
  proof (cases "list_all isHexDigit s")
    case True
    from parseUintLoop_hex [OF True b] True ne show ?thesis
      by (simp add: ParseUint_def)
  next
    case False
    from parseUintLoop_not_hex [OF False b] False ne show ?thesis
      by (simp add: ParseUint_def)
  qed
qed

lemma hexPairs_hex:
  assumes "list_all isHexDigit r" and "even (length r)" and "i + length r div 2 \<le> length m"
  shows "hexPairs r i m = (None, take i m @ hexBytes r @ drop (i + length r div 2) m)"
  using assms
proof (induction r i m rule: hexPairs.induct)
  case (1 x y rest index m)
  let ?w = "of_nat (16 * hexDigitValue x + hexDigitValue y) :: u8"
  from "1.prems" have h: "isHexDigit x \<and> isHexDigit y" and hr: "list_all isHexDigit rest"
    and ev: "even (length rest)" and lt: "index < length m"
    and le: "Suc index + length rest div 2 \<le> length (m[index := ?w])"
    by simp_all
  have p: "ParseUint [x, y] 16 8 = (16 * hexDigitValue x + hexDigitValue y, None)"
    using h by (simp add: ParseUint_pair)
  have "hexPairs (x # y # rest) index m = hexPairs rest (Suc index) (m[index := ?w])"
    by (simp add: p)
  also have "\<dots> = (None, take (Suc index) (m[index := ?w]) @ hexBytes rest
                       @ drop (Suc index + length rest div 2) (m[index := ?w]))"
    by (rule "1.IH" [OF p [symmetric] refl hr ev le])
  also have "take (Suc index) (m[index := ?w]) = take index m @ [?w]"
    using lt by (simp add: take_Suc_conv_app_nth)
  also have "drop (Suc index + length rest div 2) (m[index := ?w])
               = drop (index + length (x # y # rest) div 2) m"
    by simp
  finally show ?case by simp
qed simp_all

lemma hexPairs_not_hex:
  assumes "\<not> list_all isHexDigit r" and "even (length r)"
  shows "\<exists>m'. hexPairs r i m = (Some ErrSyntax, m') \<and> length m' = length m"
  using assms
proof (induction r i m rule: hexPairs.induct)
  case (1 x y rest index m)
  show ?case
  proof (cases "isHexDigit x \<and> isHexDigit y")
    case False
    then have "ParseUint [x, y] 16 8 = (0, Some ErrSyntax)"
      by (simp add: ParseUint_pair)
    then show ?thesis by simp
  next
    case True
    let ?w = "of_nat (16 * hexDigitValue x + hexDigitValue y) :: u8"
    have p: "ParseUint [x, y] 16 8 = (16 * hexDigitValue x + hexDigitValue y, None)"
      using True by (simp add: ParseUint_pair)
    from True "1.prems" have hr: "\<not> list_all isHexDigit rest" and ev: "even (length rest)"
      by simp_all
    from "1.IH" [OF p [symmetric] refl hr ev] show ?thesis
      by (simp add: p)
  qed
qed simp_all

subsection \<open>The text parser\<close>

lemma parseRawToMessage_result:
  assumes "message f = None"
  shows "fst (parseRawToMessage f) =
           (if odd (length (raw f)) then Some (ErrOddLength (length (raw f)))
            else if length (raw f) \<noteq> 14 \<and> length (raw f) \<noteq> 28
            then Some (ErrIncorrectLength (length (raw f) div 2))
            else if \<not> list_all isHexDigit (raw f) then Some ErrSyntax
            else None)"
    and "fst (parseRawToMessage f) = None \<Longrightarrow>
           snd (parseRawToMessage f) = f\<lparr>message := Some (hexBytes (raw f))\<rparr>"
    and "fst (parseRawToMessage f) \<noteq> None \<Longrightarrow> fst (parseRawToMessage f) \<noteq> Some ErrSyntax \<Longrightarrow>
           snd (parseRawToMessage f) = f"
    and "fst (parseRawToMessage f) = Some ErrSyntax \<Longrightarrow>
           \<exists>m. snd (parseRawToMessage f) = f\<lparr>message := Some m\<rparr> \<and> length m = length (raw f) div 2"
proof -
  let ?n = "length (raw f)"
  consider (odd) "odd ?n" | (bad) "even ?n" "?n \<noteq> 14 \<and> ?n \<noteq> 28"
    | (hex) "?n = 14 \<or> ?n = 28" "list_all isHexDigit (raw f)"
    | (nohex) "?n = 14 \<or> ?n = 28" "\<not> list_all isHexDigit (raw f)"
    by blast
  then have "(fst (parseRawToMessage f) =
           (if odd (length (raw f)) then Some (ErrOddLength (length (raw f)))
            else if length (raw f) \<noteq> 14 \<and> length (raw f) \<noteq> 28
            then Some (ErrIncorrectLength (length (raw f) div 2))
            else if \<not> list_all isHexDigit (raw f) then Some ErrSyntax
            else None))
    \<and> (fst (parseRawToMessage f) = None \<longrightarrow>
           snd (parseRawToMessage f) = f\<lparr>message := Some (hexBytes (raw f))\<rparr>)
    \<and> (fst (parseRawToMessage f) \<noteq> None \<longrightarrow> fst (parseRawToMessage f) \<noteq> Some ErrSyntax \<longrightarrow>
           snd (parseRawToMessage f) = f)
    \<and> (fst (parseRawToMessage f) = Some ErrSyntax \<longrightarrow>
           (\<exists>m. snd (parseRawToMessage f) = f\<lparr>message := Some m\<rparr> \<and> length m = length (raw f) div 2))"
  proof cases
    case odd
    then have "parseRawToMessage f = (Some (ErrOddLength ?n), f)"
      using assms by (simp add: parseRawToMessage_def Let_def odd_iff_mod_2_eq_one)
    then show ?thesis using odd by simp
  next
    case bad
    then have "\<not> (?n div 2 = 7 \<or> ?n div 2 = 14)" by (auto elim!: evenE)
    then have "parseRawToMessage f = (Some (ErrIncorrectLength (?n div 2)), f)"
      using assms bad(1)
      by (simp add: parseRawToMessage_def Let_def modesShortMsgBytes_def modesLongMsgBytes_def)
    then show ?thesis using bad by simp
  next
    case hex
    then have ev: "even ?n" and d: "?n div 2 = 7 \<or> ?n div 2 = 14"
      and le: "0 + ?n div 2 \<le> length (replicate (?n div 2) (0::u8))" by auto
    have "hexPairs (raw f) 0 (replicate (?n div 2) 0) = (None, hexBytes (raw f))"
      using hexPairs_hex [OF hex(2) ev le] by simp
    moreover have "hexBytes (raw f) \<noteq> []"
      using hex(1) by (cases "raw f" rule: hexBytes.cases) auto
    ultimately have "parseRawToMessage f = (None, f\<lparr>message := Some (hexBytes (raw f))\<rparr>)"
      using assms ev d
      by (simp add: parseRawToMessage_def Let_def modesShortMsgBytes_def modesLongMsgBytes_def)
    then show ?thesis using hex by auto
  next
    case nohex
    then have ev: "even ?n" and d: "?n div 2 = 7 \<or> ?n div 2 = 14" by auto
    from hexPairs_not_hex [OF nohex(2) ev, of 0 "replicate (?n div 2) 0"]
    obtain m where m: "hexPairs (raw f) 0 (replicate (?n div 2) 0) = (Some ErrSyntax, m)"
      and lm: "length m = ?n div 2" by auto
    have "parseRawToMessage f = (Some ErrSyntax, f\<lparr>message := Some m\<rparr>)"
      using assms ev d m
      by (simp add: parseRawToMessage_def Let_def modesShortMsgBytes_def modesLongMsgBytes_def)
    then show ?thesis using nohex lm by auto
  qed
  then show "fst (parseRawToMessage f) =
           (if odd (length (raw f)) then Some (ErrOddLength (length (raw f)))
            else if length (raw f) \<noteq> 14 \<and> length (raw f) \<noteq> 28
            then Some (ErrIncorrectLength (length (raw f) div 2))
            else if \<not> list_all isHexDigit (raw f) then Some ErrSyntax
            else None)"
    and "fst (parseRawToMessage f) = None \<Longrightarrow>
           snd (parseRawToMessage f) = f\<lparr>message := Some (hexBytes (raw f))\<rparr>"
    and "fst (parseRawToMessage f) \<noteq> None \<Longrightarrow> fst (parseRawToMessage f) \<noteq> Some ErrSyntax \<Longrightarrow>
           snd (parseRawToMessage f) = f"
    and "fst (parseRawToMessage f) = Some ErrSyntax \<Longrightarrow>
           \<exists>m. snd (parseRawToMessage f) = f\<lparr>message := Some m\<rparr> \<and> length m = length (raw f) div 2"
    by blast+
qed

lemma zeros_hex: "list_all isHexDigit ''00000000000''"
  by (simp add: isHexDigit_def)

lemma parseBeastTimeStamp_result:
  assumes "length (beastTimeStamp f) = 11"
  shows "list_all isHexDigit (beastTimeStamp f) \<Longrightarrow>
           \<exists>t n. parseBeastTimeStamp f = (None, f\<lparr>beastTicks := t, beastTicksNs := n\<rparr>)
             \<and> (beastTimeStamp f \<noteq> ''00000000000'' \<longrightarrow>
                   t = of_nat (hexNumber 0 (beastTimeStamp f)) \<and> n = t * 500)"
    and "\<not> list_all isHexDigit (beastTimeStamp f) \<Longrightarrow>
           parseBeastTimeStamp f = (Some (ErrBeastTimeStamp ErrSyntax), f\<lparr>beastTicks := 0\<rparr>)"
proof -
  have ne: "beastTimeStamp f \<noteq> []" using assms by auto
  {
    assume h: "list_all isHexDigit (beastTimeStamp f)"
    show "\<exists>t n. parseBeastTimeStamp f = (None, f\<lparr>beastTicks := t, beastTicksNs := n\<rparr>)
             \<and> (beastTimeStamp f \<noteq> ''00000000000'' \<longrightarrow>
                   t = of_nat (hexNumber 0 (beastTimeStamp f)) \<and> n = t * 500)"
    proof (cases "beastTimeStamp f = ''00000000000''")
      case True
      then have "parseBeastTimeStamp f = (None, f\<lparr>beastTicks := beastTicks f, beastTicksNs := beastTicksNs f\<rparr>)"
        by (simp add: parseBeastTimeStamp_def)
      with True show ?thesis by blast
    next
      case False
      then have "parseBeastTimeStamp f =
          (None, f\<lparr>beastTicks := of_nat (hexNumber 0 (beastTimeStamp f)),
                    beastTicksNs := of_nat (hexNumber 0 (beastTimeStamp f)) * 500\<rparr>)"
        using ne h False by (simp add: parseBeastTimeStamp_def ParseUint_timestamp [OF assms] Let_def)
      then show ?thesis by blast
    qed
  }
  {
    assume h: "\<not> list_all isHexDigit (beastTimeStamp f)"
    then have "beastTimeStamp f \<noteq> ''00000000000''" using zeros_hex by auto
    then show "parseBeastTimeStamp f = (Some (ErrBeastTimeStamp ErrSyntax), f\<lparr>beastTicks := 0\<rparr>)"
      using ne h by (simp add: parseBeastTimeStamp_def ParseUint_timestamp [OF assms])
  }
qed

lemma take_1_eq: "enc \<noteq> [] \<Longrightarrow> (take 1 enc = [c]) = (enc ! 0 = c)"
  by (cases enc) auto

lemma parseIntoRaw_short:
  assumes "raw f = []"
  shows "trimFunc (full f) = [] \<Longrightarrow> parseIntoRaw f = (Some ErrEmptyString, f)"
    and "trimFunc (full f) \<noteq> [] \<Longrightarrow> length (trimFunc (full f)) < 14 \<Longrightarrow>
           parseIntoRaw f = (Some ErrTooShort, f)"
  using assms by (simp_all add: parseIntoRaw_def Let_def)

lemma parseIntoRaw_normal:
  assumes "raw f = []" and "14 \<le> length (trimFunc (full f))"
    and "take 1 (trimFunc (full f)) \<noteq> ''@''"
  shows "parseIntoRaw f =
           parseRawToMessage
             (f\<lparr>mode := ''NORMAL'',
                raw := drop (if take 1 (trimFunc (full f)) = ''*'' then 1 else 0)
                         (trimFunc (full f))\<rparr>)"
proof -
  let ?enc = "trimFunc (full f)"
  have ne: "?enc \<noteq> []" and l: "\<not> length ?enc < 14" using assms(2) by auto
  have at: "?enc ! 0 \<noteq> CHR ''@''" using assms(3) take_1_eq [OF ne, of "CHR ''@''"] by blast
  have "length (drop (if take 1 ?enc = ''*'' then 1 else 0) ?enc) \<noteq> 0"
    using assms(2) by auto
  then show ?thesis
    using assms(1) ne l at
    by (simp add: parseIntoRaw_def Let_def del: One_nat_def)
qed

lemma parseIntoRaw_mlat_bad:
  assumes "raw f = []" and "14 \<le> length (trimFunc (full f))"
    and "take 1 (trimFunc (full f)) = ''@''"
    and "\<not> list_all isHexDigit (take 11 (drop 1 (trimFunc (full f))))"
  shows "parseIntoRaw f =
           (Some (ErrBeastTimeStamp ErrSyntax),
            f\<lparr>mode := ''MLAT'', beastTimeStamp := take 11 (drop 1 (trimFunc (full f))),
               beastTicks := 0\<rparr>)"
proof -
  let ?enc = "trimFunc (full f)"
  let ?g = "f\<lparr>mode := ''MLAT'', beastTimeStamp := take 11 (drop 1 ?enc)\<rparr>"
  have ne: "?enc \<noteq> []" and l: "\<not> length ?enc < 14" using assms(2) by auto
  have at: "?enc ! 0 = CHR ''@''" using assms(3) take_1_eq [OF ne, of "CHR ''@''"] by blast
  have len: "length (beastTimeStamp ?g) = 11" using assms(2) by simp
  have bad: "\<not> list_all isHexDigit (beastTimeStamp ?g)" using assms(4) by simp
  have "parseBeastTimeStamp ?g = (Some (ErrBeastTimeStamp ErrSyntax), ?g\<lparr>beastTicks := 0\<rparr>)"
    by (rule parseBeastTimeStamp_result(2) [OF len bad])
  then show ?thesis
    using assms(1) ne l at by (simp add: parseIntoRaw_def Let_def)
qed

lemma parseIntoRaw_mlat:
  assumes "raw f = []" and "14 \<le> length (trimFunc (full f))"
    and "take 1 (trimFunc (full f)) = ''@''"
    and "list_all isHexDigit (take 11 (drop 1 (trimFunc (full f))))"
  shows "\<exists>t n. parseIntoRaw f =
           parseRawToMessage
             (f\<lparr>mode := ''MLAT'', beastTimeStamp := take 11 (drop 1 (trimFunc (full f))),
                beastTicks := t, beastTicksNs := n, raw := drop 13 (trimFunc (full f))\<rparr>)
           \<and> (take 11 (drop 1 (trimFunc (full f))) \<noteq> ''00000000000'' \<longrightarrow>
                 t = of_nat (hexNumber 0 (take 11 (drop 1 (trimFunc (full f))))) \<and> n = t * 500)"
proof -
  let ?enc = "trimFunc (full f)"
  let ?g = "f\<lparr>mode := ''MLAT'', beastTimeStamp := take 11 (drop 1 ?enc)\<rparr>"
  have ne: "?enc \<noteq> []" and l: "\<not> length ?enc < 14" using assms(2) by auto
  have at: "?enc ! 0 = CHR ''@''" using assms(3) take_1_eq [OF ne, of "CHR ''@''"] by blast
  have len: "length (beastTimeStamp ?g) = 11" using assms(2) by simp
  have ok: "list_all isHexDigit (beastTimeStamp ?g)" using assms(4) by simp
  from parseBeastTimeStamp_result(1) [OF len ok] obtain t n
    where p: "parseBeastTimeStamp ?g = (None, ?g\<lparr>beastTicks := t, beastTicksNs := n\<rparr>)"
      and v: "take 11 (drop 1 ?enc) \<noteq> ''00000000000'' \<longrightarrow>
                 t = of_nat (hexNumber 0 (take 11 (drop 1 ?enc))) \<and> n = t * 500"
    by auto
  have "length (drop 13 ?enc) \<noteq> 0" using assms(2) by simp
  then have "parseIntoRaw f = parseRawToMessage
             (f\<lparr>mode := ''MLAT'', beastTimeStamp := take 11 (drop 1 ?enc),
                beastTicks := t, beastTicksNs := n, raw := drop 13 ?enc\<rparr>)"
    using assms(1) ne l at p by (simp add: parseIntoRaw_def Let_def)
  with v show ?thesis by blast
qed

subsection \<open>The text parser on the example frames\<close>

lemmas frame_defs = mlatFrame_def shortStampFrame_def strayFrame_def badHexFrame_def
  oddFrame_def NewFrame_def

lemmas trim_defs = trimFunc_def trimmedRunes_def leadingTrimmed_def Let_def

lemma trim_examples:
  "trimFunc (full mlatFrame) = ''@0000000F42405D7C49F828E943''"
  "trimFunc (full shortStampFrame) = ''@000000000005D7C49F828E943''"
  "trimFunc (full strayFrame) = ''@0000000F424X5D7C49F828E943''"
  "trimFunc (full badHexFrame) = ''*A0001838CA3EZZ''"
  "trimFunc (full oddFrame) = ''*5D7C49F828E94''"
  by (simp_all add: frame_defs trim_defs)

lemma fresh_examples:
  "raw mlatFrame = []" "message mlatFrame = None"
  "raw shortStampFrame = []" "message shortStampFrame = None"
  "raw strayFrame = []" "message strayFrame = None"
  "raw badHexFrame = []" "message badHexFrame = None"
  "raw oddFrame = []" "message oddFrame = None"
  by (simp_all add: frame_defs)

lemma ParseUint_examples:
  "ParseUint ''A0'' 16 8 = (0xA0, None)" "ParseUint ''00'' 16 8 = (0, None)"
  "ParseUint ''18'' 16 8 = (0x18, None)" "ParseUint ''38'' 16 8 = (0x38, None)"
  "ParseUint ''CA'' 16 8 = (0xCA, None)" "ParseUint ''3E'' 16 8 = (0x3E, None)"
  "ParseUint ''ZZ'' 16 8 = (0, Some ErrSyntax)"
  by (simp_all add: ParseUint_pair isHexDigit_def hexDigitValue_def)

lemma parseIntoRaw_badHexFrame:
  "parseIntoRaw badHexFrame =
     (Some ErrSyntax,
      badHexFrame\<lparr>mode := ''NORMAL'', raw := ''A0001838CA3EZZ'',
                   message := Some [0xA0, 0x00, 0x18, 0x38, 0xCA, 0x3E, 0x00]\<rparr>)"
proof -
  have t: "14 \<le> length (trimFunc (full badHexFrame))" "take 1 (trimFunc (full badHexFrame)) \<noteq> ''@''"
    by (simp_all add: trim_examples)
  have b: "drop (if take 1 (trimFunc (full badHexFrame)) = ''*'' then 1 else 0)
             (trimFunc (full badHexFrame)) = ''A0001838CA3EZZ''"
    by (simp add: trim_examples)
  show ?thesis
    unfolding parseIntoRaw_normal [OF fresh_examples(7) t] b
    by (simp add: parseRawToMessage_def fresh_examples Let_def modesShortMsgBytes_def
          modesLongMsgBytes_def ParseUint_examples)
qed

lemma parseIntoRaw_oddFrame:
  "parseIntoRaw oddFrame =
     (Some (ErrOddLength 13), oddFrame\<lparr>mode := ''NORMAL'', raw := ''5D7C49F828E94''\<rparr>)"
proof -
  have t: "14 \<le> length (trimFunc (full oddFrame))" "take 1 (trimFunc (full oddFrame)) \<noteq> ''@''"
    by (simp_all add: trim_examples)
  have b: "drop (if take 1 (trimFunc (full oddFrame)) = ''*'' then 1 else 0)
             (trimFunc (full oddFrame)) = ''5D7C49F828E94''"
    by (simp add: trim_examples)
  show ?thesis
    unfolding parseIntoRaw_normal [OF fresh_examples(9) t] b
    by (simp add: parseRawToMessage_def fresh_examples Let_def)
qed

lemma parseIntoRaw_shortStampFrame:
  "parseIntoRaw shortStampFrame =
     (Some (ErrOddLength 13),
      shortStampFrame\<lparr>mode := ''MLAT'', beastTimeStamp := ''00000000000'',
                       raw := ''D7C49F828E943''\<rparr>)"
  by (simp add: parseIntoRaw_def trim_examples fresh_examples Let_def parseBeastTimeStamp_def
        parseRawToMessage_def)

lemma parseRawToMessage_example:
  assumes "message f = None" and "raw f = ''5D7C49F828E943''"
  shows "parseRawToMessage f
           = (None, f\<lparr>message := Some [0x5D, 0x7C, 0x49, 0xF8, 0x28, 0xE9, 0x43]\<rparr>)"
proof -
  have e: "fst (parseRawToMessage f) = None"
    unfolding parseRawToMessage_result(1) [OF assms(1)]
    by (simp add: assms(2) isHexDigit_def)
  from parseRawToMessage_result(2) [OF assms(1) e]
  have "snd (parseRawToMessage f) = f\<lparr>message := Some [0x5D, 0x7C, 0x49, 0xF8, 0x28, 0xE9, 0x43]\<rparr>"
    by (simp add: assms(2) hexDigitValue_def)
  with e show ?thesis
    by (simp add: prod_eq_iff)
qed

lemma parseIntoRaw_stamped:
  assumes "raw f = []" and "message f = None"
    and "trimFunc (full f) = ''@0000000F424'' @ c # ''5D7C49F828E943''"
  shows "parseIntoRaw f =
     (None,
      f\<lparr>mode := ''MLAT'', beastTimeStamp := ''0000000F424'', beastTicks := 62500,
        beastTicksNs := 31250000, raw := ''5D7C49F828E943'',
        message := Some [0x5D, 0x7C, 0x49, 0xF8, 0x28, 0xE9, 0x43]\<rparr>)"
proof -
  have t: "14 \<le> length (trimFunc (full f))" "take 1 (trimFunc (full f)) = ''@''"
    "list_all isHexDigit (take 11 (drop 1 (trimFunc (full f))))"
    by (simp_all add: assms(3) isHexDigit_def)
  have ts: "take 11 (drop 1 (trimFunc (full f))) = ''0000000F424''"
    and body: "drop 13 (trimFunc (full f)) = ''5D7C49F828E943''"
    by (simp_all add: assms(3))
  have n: "hexNumber 0 ''0000000F424'' = 62500"
    by (simp add: hexNumber_def hexDigitValue_def)
  from parseIntoRaw_mlat [OF assms(1) t, unfolded ts body] n
  have p: "parseIntoRaw f = parseRawToMessage
             (f\<lparr>mode := ''MLAT'', beastTimeStamp := ''0000000F424'', beastTicks := 62500,
                beastTicksNs := 31250000, raw := ''5D7C49F828E943''\<rparr>)"
    by auto
  show ?thesis
    unfolding p by (subst parseRawToMessage_example) (simp_all add: assms(2))
qed

subsection \<open>The time stamp of a text frame\<close>

text \<open>
  Claim C5 says that the time stamp is the 11 digits after \<open>@\<close> and that the message is
  decoded from the characters that follow them. \<open>parseIntoRaw\<close> takes the 11 characters
  at the offsets 1 to 11 as the time stamp and the characters from offset 13 on as the
  message, so the character at offset 12 is in neither. With 11 digits before the 14
  digits of a message, 13 characters are left and the frame is refused as of odd
  length, with no message. With 12 digits there, the message is decoded and the ticks
  are the number of the first 11 digits, 62500, where the 12 digits write 1000000; the
  result is the same with a letter that is no digit at offset 12.
\<close>

theorem parseIntoRaw_timestamp_off_by_one:
  "drop 12 (trimFunc (full shortStampFrame)) = ''5D7C49F828E943''
   \<and> parseIntoRaw shortStampFrame =
       (Some (ErrOddLength 13),
        shortStampFrame\<lparr>mode := ''MLAT'', beastTimeStamp := ''00000000000'',
                         raw := ''D7C49F828E943''\<rparr>)
   \<and> message (snd (parseIntoRaw shortStampFrame)) = None
   \<and> parseIntoRaw mlatFrame =
       (None,
        mlatFrame\<lparr>mode := ''MLAT'', beastTimeStamp := ''0000000F424'', beastTicks := 62500,
                   beastTicksNs := 31250000, raw := ''5D7C49F828E943'',
                   message := Some [0x5D, 0x7C, 0x49, 0xF8, 0x28, 0xE9, 0x43]\<rparr>)
   \<and> hexNumber 0 ''0000000F4240'' = 1000000
   \<and> parseIntoRaw strayFrame =
       (None,
        strayFrame\<lparr>mode := ''MLAT'', beastTimeStamp := ''0000000F424'', beastTicks := 62500,
                    beastTicksNs := 31250000, raw := ''5D7C49F828E943'',
                    message := Some [0x5D, 0x7C, 0x49, 0xF8, 0x28, 0xE9, 0x43]\<rparr>)"
proof -
  have a: "trimFunc (full mlatFrame) = ''@0000000F424'' @ CHR ''0'' # ''5D7C49F828E943''"
    and b: "trimFunc (full strayFrame) = ''@0000000F424'' @ CHR ''X'' # ''5D7C49F828E943''"
    by (simp_all add: trim_examples)
  have n: "hexNumber 0 ''0000000F4240'' = 1000000"
    by (simp add: hexNumber_def hexDigitValue_def)
  have d: "drop 12 (trimFunc (full shortStampFrame)) = ''5D7C49F828E943''"
    by (simp add: trim_examples)
  have m: "message (snd (parseIntoRaw shortStampFrame)) = None"
    by (simp add: parseIntoRaw_shortStampFrame fresh_examples)
  from d parseIntoRaw_shortStampFrame m parseIntoRaw_stamped [OF fresh_examples(1,2) a] n
    parseIntoRaw_stamped [OF fresh_examples(5,6) b]
  show ?thesis by blast
qed

subsection \<open>A character that is not a hexadecimal digit\<close>

text \<open>
  Claim C6 says that the message is not populated when parsing returns an error.
  \<open>parseRawToMessage\<close> allocates the message before it converts the first pair of
  characters and returns the error of the conversion from inside the loop: on
  \<open>*A0001838CA3EZZ;\<close> the error of the seventh pair is returned, and the frame is left with
  a message of seven bytes, the last one 0.
\<close>

theorem parseIntoRaw_bad_hex_leaves_message:
  "trimFunc (full badHexFrame) = ''*A0001838CA3EZZ''
   \<and> message badHexFrame = None
   \<and> parseIntoRaw badHexFrame =
       (Some ErrSyntax,
        badHexFrame\<lparr>mode := ''NORMAL'', raw := ''A0001838CA3EZZ'',
                     message := Some [0xA0, 0x00, 0x18, 0x38, 0xCA, 0x3E, 0x00]\<rparr>)
   \<and> message (snd (parseIntoRaw badHexFrame)) = Some [0xA0, 0x00, 0x18, 0x38, 0xCA, 0x3E, 0x00]"
  by (simp add: parseIntoRaw_badHexFrame trim_examples fresh_examples)

subsection \<open>Decoding again after a failure\<close>

lemma Decode_oddFrame:
  "Decode H (Some oddFrame) =
     Returns (Some (ErrOddLength 13))
       (Some (oddFrame\<lparr>mode := ''NORMAL'', raw := ''5D7C49F828E94''\<rparr>))"
  by (simp add: Decode_def parseIntoRaw_oddFrame) (simp add: frame_defs)

lemma Decode_oddFrame_again:
  "Decode H (Some (oddFrame\<lparr>mode := ''NORMAL'', raw := ''5D7C49F828E94''\<rparr>)) =
     (if isNoOp H (oddFrame\<lparr>mode := ''NORMAL'', raw := ''5D7C49F828E94''\<rparr>)
      then Returns (Some ErrNoOp) (Some (oddFrame\<lparr>mode := ''NORMAL'', raw := ''5D7C49F828E94''\<rparr>))
      else Panics)"
  by (simp add: Decode_def parseIntoRaw_def decodeBody_def parse_def decodeDownLinkFormat_def
        byteAt_def msgBytes_def frame_defs)

text \<open>
  Claim C3 says that a second call of \<^verbatim>\<open>Decode\<close> gives the result and the state of the
  first. On \<open>*5D7C49F828E94;\<close> the first call returns the error of the odd length, with
  the 13 characters stored in \<open>raw\<close> and no message. The second call finds \<open>raw\<close> not
  empty, so that \<open>parseIntoRaw\<close> returns nil without a message; it then returns the no-op
  error or reads the first byte of a message that is not there.
\<close>

theorem Decode_again_after_odd_length:
  "Decode H (Some oddFrame) =
     Returns (Some (ErrOddLength 13))
       (Some (oddFrame\<lparr>mode := ''NORMAL'', raw := ''5D7C49F828E94''\<rparr>))
   \<and> Decode H (Some (oddFrame\<lparr>mode := ''NORMAL'', raw := ''5D7C49F828E94''\<rparr>)) =
       (if isNoOp H (oddFrame\<lparr>mode := ''NORMAL'', raw := ''5D7C49F828E94''\<rparr>)
        then Returns (Some ErrNoOp) (Some (oddFrame\<lparr>mode := ''NORMAL'', raw := ''5D7C49F828E94''\<rparr>))
        else Panics)"
  using Decode_oddFrame Decode_oddFrame_again by (rule conjI)

end
